theory Spec2Isabelle
  imports Main
begin

section \<open>Text: Python strings as sequences of code points\<close>

text \<open>
  A Python \<^verbatim>\<open>str\<close> is a sequence of Unicode code points, so it is modelled as a list
  of natural numbers. \<open>ord\<close> is Python's \<^verbatim>\<open>ord\<close> on an ASCII character and \<open>ustr\<close>
  turns an ASCII literal into such a sequence.
\<close>

type_synonym codepoint = nat
type_synonym pystr = "codepoint list"

definition ord :: "char \<Rightarrow> codepoint" where
  "ord c = of_char c"

definition ustr :: "string \<Rightarrow> pystr" where
  "ustr cs = map ord cs"

text \<open>
  The character tables of the Python runtime (CPython 3.11, Unicode 14.0):
  \<^item> \<open>isspace\<close>: what \<^verbatim>\<open>str.strip()\<close> and \<^verbatim>\<open>str.split()\<close> treat as whitespace;
  \<^item> \<open>is_linebreak\<close>: the line boundaries of \<^verbatim>\<open>str.splitlines()\<close>;
  \<^item> \<open>isdecimal\<close>: what \<^verbatim>\<open>\d\<close> matches in a \<^verbatim>\<open>str\<close> pattern, the decimal digits of
    every script; each script's digits are ten consecutive code points, listed by
    their zero.
\<close>

definition isspace :: "codepoint \<Rightarrow> bool" where
  "isspace c \<longleftrightarrow>
     (0x09 \<le> c \<and> c \<le> 0x0D) \<or> (0x1C \<le> c \<and> c \<le> 0x20) \<or> c = 0x85 \<or> c = 0xA0 \<or>
     c = 0x1680 \<or> (0x2000 \<le> c \<and> c \<le> 0x200A) \<or> c = 0x2028 \<or> c = 0x2029 \<or>
     c = 0x202F \<or> c = 0x205F \<or> c = 0x3000"

definition is_linebreak :: "codepoint \<Rightarrow> bool" where
  "is_linebreak c \<longleftrightarrow>
     (0x0A \<le> c \<and> c \<le> 0x0D) \<or> (0x1C \<le> c \<and> c \<le> 0x1E) \<or> c = 0x85 \<or>
     c = 0x2028 \<or> c = 0x2029"

definition decimal_zeros :: "codepoint list" where
  "decimal_zeros =
     [0x30, 0x660, 0x6F0, 0x7C0, 0x966, 0x9E6, 0xA66, 0xAE6, 0xB66, 0xBE6, 0xC66,
      0xCE6, 0xD66, 0xDE6, 0xE50, 0xED0, 0xF20, 0x1040, 0x1090, 0x17E0, 0x1810,
      0x1946, 0x19D0, 0x1A80, 0x1A90, 0x1B50, 0x1BB0, 0x1C40, 0x1C50, 0xA620,
      0xA8D0, 0xA900, 0xA9D0, 0xA9F0, 0xAA50, 0xABF0, 0xFF10, 0x104A0, 0x10D30,
      0x11066, 0x110F0, 0x11136, 0x111D0, 0x112F0, 0x11450, 0x114D0, 0x11650,
      0x116C0, 0x11730, 0x118E0, 0x11950, 0x11C50, 0x11D50, 0x11DA0, 0x16A60,
      0x16AC0, 0x16B50, 0x1D7CE, 0x1D7D8, 0x1D7E2, 0x1D7EC, 0x1D7F6, 0x1E140,
      0x1E2F0, 0x1E950, 0x1FBF0]"

definition isdecimal :: "codepoint \<Rightarrow> bool" where
  "isdecimal c = list_ex (\<lambda>z. z \<le> c \<and> c < z + 10) decimal_zeros"

subsection \<open>The string methods the program calls\<close>

text \<open>\<^verbatim>\<open>s.strip()\<close>: whitespace removed at both ends.\<close>

definition str_strip :: "pystr \<Rightarrow> pystr" where
  "str_strip s = rev (dropWhile isspace (rev (dropWhile isspace s)))"

text \<open>\<^verbatim>\<open>s.lstrip(c)\<close> for a one-character argument.\<close>

definition str_lstrip :: "codepoint \<Rightarrow> pystr \<Rightarrow> pystr" where
  "str_lstrip c s = dropWhile (\<lambda>x. x = c) s"

definition str_startswith :: "pystr \<Rightarrow> pystr \<Rightarrow> bool" where
  "str_startswith s p \<longleftrightarrow> take (length p) s = p"

text \<open>
  \<^verbatim>\<open>s.split()\<close>: the maximal runs of non-whitespace, in order. \<open>cur\<close> is the run
  being read.
\<close>

fun split_from :: "pystr \<Rightarrow> pystr \<Rightarrow> pystr list" where
  "split_from cur [] = (if cur = [] then [] else [cur])"
| "split_from cur (c # cs) =
     (if isspace c then (if cur = [] then split_from [] cs else cur # split_from [] cs)
      else split_from (cur @ [c]) cs)"

definition str_split :: "pystr \<Rightarrow> pystr list" where
  "str_split s = split_from [] s"

text \<open>
  \<^verbatim>\<open>s.split(sep)\<close> for a one-character separator: every occurrence separates, empty
  pieces are kept, and the result is never empty.
\<close>

fun split_on_from :: "codepoint \<Rightarrow> pystr \<Rightarrow> pystr \<Rightarrow> pystr list" where
  "split_on_from sep cur [] = [cur]"
| "split_on_from sep cur (c # cs) =
     (if c = sep then cur # split_on_from sep [] cs else split_on_from sep (cur @ [c]) cs)"

definition str_split_on :: "codepoint \<Rightarrow> pystr \<Rightarrow> pystr list" where
  "str_split_on sep s = split_on_from sep [] s"

text \<open>\<^verbatim>\<open>sep.join(xs)\<close>.\<close>

fun str_join :: "pystr \<Rightarrow> pystr list \<Rightarrow> pystr" where
  "str_join sep [] = []"
| "str_join sep [x] = x"
| "str_join sep (x # y # ys) = x @ sep @ str_join sep (y # ys)"

text \<open>\<^verbatim>\<open>s.replace(a, b)\<close> for one-character \<open>a\<close> and \<open>b\<close>.\<close>

definition str_replace :: "codepoint \<Rightarrow> codepoint \<Rightarrow> pystr \<Rightarrow> pystr" where
  "str_replace a b s = map (\<lambda>c. if c = a then b else c) s"

text \<open>
  \<^verbatim>\<open>s.splitlines()\<close>: the text is cut at every line boundary, \<^verbatim>\<open>\r\n\<close> counting as
  one; the boundaries are dropped, and a boundary at the very end opens no further
  line.
\<close>

fun splitlines_from :: "pystr \<Rightarrow> pystr \<Rightarrow> pystr list" where
  "splitlines_from cur [] = (if cur = [] then [] else [cur])"
| "splitlines_from cur [c] =
     (if is_linebreak c then [cur] else [cur @ [c]])"
| "splitlines_from cur (c # d # cs) =
     (if c = 0x0D \<and> d = 0x0A then cur # splitlines_from [] cs
      else if is_linebreak c then cur # splitlines_from [] (d # cs)
      else splitlines_from (cur @ [c]) (d # cs))"

definition str_splitlines :: "pystr \<Rightarrow> pystr list" where
  "str_splitlines s = splitlines_from [] s"

section \<open>Regular expressions\<close>

text \<open>
  The patterns of the program use character classes, bounded and greedy repetition of
  a class, greedy optional groups, sequencing and the anchors \<^verbatim>\<open>^\<close> and \<^verbatim>\<open>$\<close>.
  \<open>rmatch r s i\<close> lists the positions where a match of \<open>r\<close> that starts at position
  \<open>i\<close> of \<open>s\<close> can end, in the order in which Python's backtracking matcher tries
  them; the first one is the match Python reports. Without the MULTILINE flag \<^verbatim>\<open>^\<close>
  holds only at position 0 and \<^verbatim>\<open>$\<close> holds at the end of the string and just before
  a newline that ends the string.
\<close>

datatype cclass = Digit | Lit codepoint | OneOf "codepoint list"

fun in_class :: "cclass \<Rightarrow> codepoint \<Rightarrow> bool" where
  "in_class Digit c = isdecimal c"
| "in_class (Lit x) c = (c = x)"
| "in_class (OneOf xs) c = (c \<in> set xs)"

datatype regex =
    Eps
  | Bol
  | Eol
  | Cls cclass
  | Times nat cclass
  | Plus cclass
  | Opt regex
  | Seq regex regex

fun rmatch :: "regex \<Rightarrow> pystr \<Rightarrow> nat \<Rightarrow> nat list" where
  "rmatch Eps s i = [i]"
| "rmatch Bol s i = (if i = 0 then [i] else [])"
| "rmatch Eol s i =
     (if i = length s \<or> (Suc i = length s \<and> s ! i = 0x0A) then [i] else [])"
| "rmatch (Cls k) s i = (if i < length s \<and> in_class k (s ! i) then [Suc i] else [])"
| "rmatch (Times n k) s i =
     (if i + n \<le> length s \<and> list_all (in_class k) (take n (drop i s)) then [i + n]
      else [])"
| "rmatch (Plus k) s i =
     map (\<lambda>j. i + j) (rev [1 ..< Suc (length (takeWhile (in_class k) (drop i s)))])"
| "rmatch (Opt r) s i = rmatch r s i @ [i]"
| "rmatch (Seq r1 r2) s i = concat (map (rmatch r2 s) (rmatch r1 s i))"

definition seq :: "regex list \<Rightarrow> regex" where
  "seq rs = foldr Seq rs Eps"

definition chr :: "char \<Rightarrow> regex" where
  "chr c = Cls (Lit (ord c))"

definition any_of :: "string \<Rightarrow> regex" where
  "any_of cs = Cls (OneOf (ustr cs))"

text \<open>
  \<^verbatim>\<open>re.match\<close> tries position 0 only; \<^verbatim>\<open>re.search\<close> tries every start position from
  the left. Both give the span of the match, from which \<open>group0\<close> cuts the matched
  text.
\<close>

definition re_match :: "regex \<Rightarrow> pystr \<Rightarrow> (nat \<times> nat) option" where
  "re_match r s = (case rmatch r s 0 of [] \<Rightarrow> None | e # _ \<Rightarrow> Some (0, e))"

fun search_at :: "regex \<Rightarrow> pystr \<Rightarrow> nat list \<Rightarrow> (nat \<times> nat) option" where
  "search_at r s [] = None"
| "search_at r s (i # is) =
     (case rmatch r s i of [] \<Rightarrow> search_at r s is | e # _ \<Rightarrow> Some (i, e))"

definition re_search :: "regex \<Rightarrow> pystr \<Rightarrow> (nat \<times> nat) option" where
  "re_search r s = search_at r s [0 ..< Suc (length s)]"

definition group0 :: "pystr \<Rightarrow> nat \<times> nat \<Rightarrow> pystr" where
  "group0 s sp = take (snd sp - fst sp) (drop (fst sp) s)"

definition matches :: "regex \<Rightarrow> pystr \<Rightarrow> bool" where
  "matches r s \<longleftrightarrow> re_match r s \<noteq> None"

subsection \<open>The patterns of the program\<close>

text \<open>\<^verbatim>\<open>DATE_RE = re.compile(r'^\d{4}-\d{2}-\d{2}$')\<close>\<close>

definition DATE_RE :: regex where
  "DATE_RE = seq [Bol, Times 4 Digit, chr CHR ''-'', Times 2 Digit, chr CHR ''-'',
                  Times 2 Digit, Eol]"

text \<open>\<^verbatim>\<open>TIME_RE = re.compile(r'^\d{2}:\d{2}$')\<close>\<close>

definition TIME_RE :: regex where
  "TIME_RE = seq [Bol, Times 2 Digit, chr CHR '':'', Times 2 Digit, Eol]"

text \<open>\<^verbatim>\<open>NUM_RE = re.compile(r'^[+-]?\d+(\.\d+)?([eE][+-]?\d+)?$')\<close>\<close>

definition NUM_RE :: regex where
  "NUM_RE = seq [Bol, Opt (any_of ''+-''), Plus Digit,
                 Opt (seq [chr CHR ''.'', Plus Digit]),
                 Opt (seq [any_of ''eE'', Opt (any_of ''+-''), Plus Digit]), Eol]"

text \<open>The time pattern of Format A: \<^verbatim>\<open>r'^\d{2}:\d{2}(:\d{2})?$'\<close>\<close>

definition CLOCK_RE :: regex where
  "CLOCK_RE = seq [Bol, Times 2 Digit, chr CHR '':'', Times 2 Digit,
                   Opt (seq [chr CHR '':'', Times 2 Digit]), Eol]"

text \<open>The datetime pattern of Format D: \<^verbatim>\<open>r'(\d{4}-\d{2}-\d{2}[T ]\d{2}:\d{2}(:\d{2})?)'\<close>\<close>

definition DATETIME_RE :: regex where
  "DATETIME_RE = seq [Times 4 Digit, chr CHR ''-'', Times 2 Digit, chr CHR ''-'',
                      Times 2 Digit, any_of ''T '', Times 2 Digit, chr CHR '':'',
                      Times 2 Digit, Opt (seq [chr CHR '':'', Times 2 Digit])]"

section \<open>Errors\<close>

text \<open>
  The exceptions the program can raise or let through: its own \<^verbatim>\<open>ValueError\<close> and
  \<^verbatim>\<open>RuntimeError\<close> with their messages, the \<^verbatim>\<open>ValueError\<close> of a failed tuple
  unpacking and the \<^verbatim>\<open>IndexError\<close> of an index out of range, the
  \<^verbatim>\<open>UnicodeEncodeError\<close> of the URL encoder, and whatever the URL parser and the HTTP
  client raise.
\<close>

datatype py_error =
    ValueError pystr
  | RuntimeError pystr
  | UnpackError
  | IndexError
  | UnicodeEncodeError
  | LibraryError pystr

section \<open>The URL Builder\<close>

text \<open>\<^verbatim>\<open>a or b\<close> on strings: \<open>a\<close> unless it is empty.\<close>

definition str_or :: "pystr \<Rightarrow> pystr \<Rightarrow> pystr" where
  "str_or a b = (if a = [] then b else a)"

text \<open>
  \<^verbatim>\<open>_date_time_to_query_parts\<close>. The two tuple assignments raise when the split does
  not give exactly three, respectively two, pieces.
\<close>

definition date_time_to_query_parts ::
  "pystr \<Rightarrow> pystr \<Rightarrow> py_error + (pystr \<times> pystr \<times> pystr \<times> pystr \<times> pystr)" where
  "date_time_to_query_parts date_str time_str =
     (if \<not> matches DATE_RE date_str
      then Inl (ValueError (ustr ''date debe tener formato YYYY-MM-DD''))
      else if \<not> matches TIME_RE time_str
      then Inl (ValueError (ustr ''time debe tener formato HH:MM''))
      else
        (case str_split_on (ord CHR ''-'') date_str of
           [y, m, d] \<Rightarrow>
             (case str_split_on (ord CHR '':'') time_str of
                [hh, mm] \<Rightarrow>
                  Inr (str_or (str_lstrip (ord CHR ''0'') d) (ustr ''0''),
                       str_or (str_lstrip (ord CHR ''0'') m) (ustr ''0''),
                       y,
                       str_or (str_lstrip (ord CHR ''0'') hh) (ustr ''0''),
                       str_or (str_lstrip (ord CHR ''0'') mm) (ustr ''0''))
              | _ \<Rightarrow> Inl UnpackError)
         | _ \<Rightarrow> Inl UnpackError))"

subsection \<open>The query-string functions of \<^verbatim>\<open>urllib.parse\<close>\<close>

text \<open>
  \<^verbatim>\<open>parse_qs\<close> and \<^verbatim>\<open>urlencode\<close> as the program calls them (CPython 3.11): default
  arguments except \<^verbatim>\<open>doseq=True\<close>. Bytes are numbers below 256.
\<close>

text \<open>\<^verbatim>\<open>str.encode('utf-8', 'strict')\<close>: a surrogate cannot be encoded.\<close>

definition utf8_encode_char :: "codepoint \<Rightarrow> py_error + nat list" where
  "utf8_encode_char c =
     (if c < 0x80 then Inr [c]
      else if c < 0x800 then Inr [0xC0 + c div 64, 0x80 + c mod 64]
      else if 0xD800 \<le> c \<and> c \<le> 0xDFFF then Inl UnicodeEncodeError
      else if c < 0x10000
      then Inr [0xE0 + c div 4096, 0x80 + (c div 64) mod 64, 0x80 + c mod 64]
      else if c < 0x110000
      then Inr [0xF0 + c div 262144, 0x80 + (c div 4096) mod 64,
                0x80 + (c div 64) mod 64, 0x80 + c mod 64]
      else Inl UnicodeEncodeError)"

fun utf8_encode :: "pystr \<Rightarrow> py_error + nat list" where
  "utf8_encode [] = Inr []"
| "utf8_encode (c # cs) =
     (case utf8_encode_char c of
        Inl e \<Rightarrow> Inl e
      | Inr bs \<Rightarrow> (case utf8_encode cs of Inl e \<Rightarrow> Inl e | Inr rest \<Rightarrow> Inr (bs @ rest)))"

text \<open>
  \<^verbatim>\<open>bytes.decode('utf-8', 'replace')\<close>: every maximal ill-formed part becomes one
  U+FFFD.
\<close>

definition is_cont :: "nat \<Rightarrow> bool" where
  "is_cont b \<longleftrightarrow> 0x80 \<le> b \<and> b < 0xC0"

definition second_ok :: "nat \<Rightarrow> nat \<Rightarrow> bool" where
  "second_ok b c \<longleftrightarrow>
     is_cont c \<and> (b = 0xE0 \<longrightarrow> 0xA0 \<le> c) \<and> (b = 0xED \<longrightarrow> c < 0xA0) \<and>
     (b = 0xF0 \<longrightarrow> 0x90 \<le> c) \<and> (b = 0xF4 \<longrightarrow> c < 0x90)"

fun utf8_decode_replace :: "nat list \<Rightarrow> pystr" where
  "utf8_decode_replace [] = []"
| "utf8_decode_replace (b # bs) =
     (if b < 0x80 then b # utf8_decode_replace bs
      else if b < 0xC2 \<or> 0xF5 \<le> b then 0xFFFD # utf8_decode_replace bs
      else
        (case bs of
           [] \<Rightarrow> [0xFFFD]
         | c # cs \<Rightarrow>
             if \<not> second_ok b c then 0xFFFD # utf8_decode_replace bs
             else if b < 0xE0
             then ((b - 0xC0) * 64 + (c - 0x80)) # utf8_decode_replace cs
             else
               (case cs of
                  [] \<Rightarrow> [0xFFFD]
                | d # ds \<Rightarrow>
                    if \<not> is_cont d then 0xFFFD # utf8_decode_replace cs
                    else if b < 0xF0
                    then ((b - 0xE0) * 4096 + (c - 0x80) * 64 + (d - 0x80))
                           # utf8_decode_replace ds
                    else
                      (case ds of
                         [] \<Rightarrow> [0xFFFD]
                       | e # es \<Rightarrow>
                           if \<not> is_cont e then 0xFFFD # utf8_decode_replace ds
                           else ((b - 0xF0) * 262144 + (c - 0x80) * 4096 +
                                 (d - 0x80) * 64 + (e - 0x80))
                                  # utf8_decode_replace es))))"

text \<open>The value of a hexadecimal digit, \<^verbatim>\<open>_hexdig = '0123456789ABCDEFabcdef'\<close>.\<close>

definition hexval :: "codepoint \<Rightarrow> nat option" where
  "hexval c =
     (if 0x30 \<le> c \<and> c \<le> 0x39 then Some (c - 0x30)
      else if 0x41 \<le> c \<and> c \<le> 0x46 then Some (c - 0x41 + 10)
      else if 0x61 \<le> c \<and> c \<le> 0x66 then Some (c - 0x61 + 10)
      else None)"

text \<open>
  \<^verbatim>\<open>unquote_to_bytes\<close> on an ASCII string: the string is split at \<^verbatim>\<open>%\<close>; a piece that
  starts with two hexadecimal digits gives that byte and its rest, any other piece
  keeps its \<^verbatim>\<open>%\<close>.
\<close>

definition unquote_item :: "pystr \<Rightarrow> nat list" where
  "unquote_item item =
     (case item of
        a # b # rest \<Rightarrow>
          (case (hexval a, hexval b) of
             (Some x, Some y) \<Rightarrow> (16 * x + y) # rest
           | _ \<Rightarrow> ord CHR ''%'' # item)
      | _ \<Rightarrow> ord CHR ''%'' # item)"

definition unquote_to_bytes :: "pystr \<Rightarrow> nat list" where
  "unquote_to_bytes s =
     (case str_split_on (ord CHR ''%'') s of
        [] \<Rightarrow> []
      | first # items \<Rightarrow> first @ concat (map unquote_item items))"

text \<open>
  \<^verbatim>\<open>unquote\<close>: a string without \<^verbatim>\<open>%\<close> is returned as it is; otherwise every maximal
  run of ASCII characters is unquoted to bytes and decoded, and the characters
  between the runs are kept. \<open>run\<close> is the ASCII run being read.
\<close>

fun unquote_runs :: "pystr \<Rightarrow> pystr \<Rightarrow> pystr" where
  "unquote_runs run [] = utf8_decode_replace (unquote_to_bytes run)"
| "unquote_runs run (c # cs) =
     (if c < 0x80 then unquote_runs (run @ [c]) cs
      else utf8_decode_replace (unquote_to_bytes run) @ c # unquote_runs [] cs)"

definition unquote :: "pystr \<Rightarrow> pystr" where
  "unquote s = (if ord CHR ''%'' \<notin> set s then s else unquote_runs [] s)"

definition unquote_plus :: "pystr \<Rightarrow> pystr" where
  "unquote_plus s = unquote (str_replace (ord CHR ''+'') (ord CHR '' '') s)"

text \<open>
  \<^verbatim>\<open>quote\<close>: the UTF-8 bytes of the string, each kept if it is a letter, a digit, one
  of \<^verbatim>\<open>_.-~\<close> or a byte of \<open>safe\<close>, and written \<^verbatim>\<open>%XX\<close> otherwise.
\<close>

definition always_safe :: "nat \<Rightarrow> bool" where
  "always_safe b \<longleftrightarrow>
     (0x41 \<le> b \<and> b \<le> 0x5A) \<or> (0x61 \<le> b \<and> b \<le> 0x7A) \<or> (0x30 \<le> b \<and> b \<le> 0x39) \<or>
     b \<in> set (ustr ''_.-~'')"

definition hexdigit :: "nat \<Rightarrow> codepoint" where
  "hexdigit n = (if n < 10 then 0x30 + n else 0x41 + (n - 10))"

definition quote_byte :: "nat list \<Rightarrow> nat \<Rightarrow> pystr" where
  "quote_byte safe b =
     (if always_safe b \<or> b \<in> set safe then [b]
      else [ord CHR ''%'', hexdigit (b div 16), hexdigit (b mod 16)])"

definition quote :: "nat list \<Rightarrow> pystr \<Rightarrow> py_error + pystr" where
  "quote safe s =
     (case utf8_encode s of
        Inl e \<Rightarrow> Inl e
      | Inr bs \<Rightarrow> Inr (concat (map (quote_byte safe) bs)))"

definition quote_plus :: "pystr \<Rightarrow> py_error + pystr" where
  "quote_plus s =
     (if ord CHR '' '' \<notin> set s then quote [] s
      else
        (case quote (ustr '' '') s of
           Inl e \<Rightarrow> Inl e
         | Inr q \<Rightarrow> Inr (str_replace (ord CHR '' '') (ord CHR ''+'') q)))"

text \<open>\<^verbatim>\<open>s.partition('=')\<close>: the text before the first \<^verbatim>\<open>=\<close> and the text after it.\<close>

definition partition_eq :: "pystr \<Rightarrow> pystr \<times> pystr" where
  "partition_eq s =
     (takeWhile (\<lambda>c. c \<noteq> ord CHR ''='') s, drop 1 (dropWhile (\<lambda>c. c \<noteq> ord CHR ''='') s))"

text \<open>
  \<^verbatim>\<open>parse_qsl\<close>: the fields between \<^verbatim>\<open>&\<close>; an empty field and a field with an empty
  value are left out (\<^verbatim>\<open>keep_blank_values\<close> is false).
\<close>

definition parse_field :: "pystr \<Rightarrow> (pystr \<times> pystr) option" where
  "parse_field name_value =
     (if name_value = [] then None
      else
        (let (name, val) = partition_eq name_value
         in if val = [] then None else Some (unquote_plus name, unquote_plus val)))"

definition parse_qsl :: "pystr \<Rightarrow> (pystr \<times> pystr) list" where
  "parse_qsl qs =
     (if qs = [] then [] else List.map_filter parse_field (str_split_on (ord CHR ''&'') qs))"

text \<open>
  A \<^verbatim>\<open>dict\<close> from names to lists of values, as the list of its items in insertion
  order. \<open>dict_append\<close> is the loop body of \<^verbatim>\<open>parse_qs\<close>, \<open>dict_set\<close> is the assignment
  \<^verbatim>\<open>d[k] = v\<close>: the value of a key already present is replaced where it stands.
\<close>

type_synonym qdict = "(pystr \<times> pystr list) list"

definition dict_append :: "qdict \<Rightarrow> pystr \<Rightarrow> pystr \<Rightarrow> qdict" where
  "dict_append d name val =
     (if name \<in> fst ` set d
      then map (\<lambda>(k, vs). if k = name then (k, vs @ [val]) else (k, vs)) d
      else d @ [(name, [val])])"

definition dict_set :: "qdict \<Rightarrow> pystr \<Rightarrow> pystr list \<Rightarrow> qdict" where
  "dict_set d name vals =
     (if name \<in> fst ` set d
      then map (\<lambda>(k, vs). if k = name then (k, vals) else (k, vs)) d
      else d @ [(name, vals)])"

definition parse_qs :: "pystr \<Rightarrow> qdict" where
  "parse_qs qs = foldl (\<lambda>d (name, val). dict_append d name val) [] (parse_qsl qs)"

text \<open>
  \<^verbatim>\<open>urlencode(qs, doseq=True)\<close>: for every key in order, the key is quoted, then each
  of its values; the pieces \<^verbatim>\<open>key=value\<close> are joined with \<^verbatim>\<open>&\<close>.
\<close>

fun encode_values :: "pystr \<Rightarrow> pystr list \<Rightarrow> py_error + pystr list" where
  "encode_values k [] = Inr []"
| "encode_values k (elt # rest) =
     (case quote_plus elt of
        Inl e \<Rightarrow> Inl e
      | Inr v \<Rightarrow>
          (case encode_values k rest of
             Inl e \<Rightarrow> Inl e
           | Inr l \<Rightarrow> Inr ((k @ ustr ''='' @ v) # l)))"

fun encode_items :: "qdict \<Rightarrow> py_error + pystr list" where
  "encode_items [] = Inr []"
| "encode_items ((k, vs) # rest) =
     (case quote_plus k of
        Inl e \<Rightarrow> Inl e
      | Inr k' \<Rightarrow>
          (case encode_values k' vs of
             Inl e \<Rightarrow> Inl e
           | Inr l1 \<Rightarrow>
               (case encode_items rest of Inl e \<Rightarrow> Inl e | Inr l2 \<Rightarrow> Inr (l1 @ l2))))"

definition urlencode :: "qdict \<Rightarrow> py_error + pystr" where
  "urlencode d =
     (case encode_items d of Inl e \<Rightarrow> Inl e | Inr l \<Rightarrow> Inr (str_join (ustr ''&'') l))"

subsection \<open>Rebuilding the query\<close>

text \<open>
  The six components \<^verbatim>\<open>urlparse\<close> returns. \<^verbatim>\<open>urlparse\<close> and \<^verbatim>\<open>urlunparse\<close> themselves
  are functions of the library; the program passes five components through and
  rewrites the query.
\<close>

record url =
  scheme :: pystr
  netloc :: pystr
  path :: pystr
  params :: pystr
  query :: pystr
  fragment :: pystr

text \<open>
  Lines 45 to 54 of \<^verbatim>\<open>_build_ascii_url\<close>: from the query of the base URL to the new
  query. Both date/time pairs are validated before the first assignment.
\<close>

definition build_query ::
  "pystr \<Rightarrow> pystr \<Rightarrow> pystr \<Rightarrow> pystr \<Rightarrow> pystr \<Rightarrow> py_error + pystr" where
  "build_query q start_date start_time end_date end_time =
     (let qs = parse_qs q
      in case date_time_to_query_parts start_date start_time of
           Inl e \<Rightarrow> Inl e
         | Inr (s_day, s_month, s_year, s_hour, s_min) \<Rightarrow>
             (case date_time_to_query_parts end_date end_time of
                Inl e \<Rightarrow> Inl e
              | Inr (e_day, e_month, e_year, e_hour, e_min) \<Rightarrow>
                  (let qs = dict_set qs (ustr ''start_day'') [s_day];
                       qs = dict_set qs (ustr ''start_month'') [s_month];
                       qs = dict_set qs (ustr ''start_year'') [s_year];
                       qs = dict_set qs (ustr ''start_hour'') [s_hour];
                       qs = dict_set qs (ustr ''start_min'') [s_min];
                       qs = dict_set qs (ustr ''end_day'') [e_day];
                       qs = dict_set qs (ustr ''end_month'') [e_month];
                       qs = dict_set qs (ustr ''end_year'') [e_year];
                       qs = dict_set qs (ustr ''end_hour'') [e_hour];
                       qs = dict_set qs (ustr ''end_min'') [e_min];
                       qs = dict_set qs (ustr ''output'') [ustr ''ascii'']
                   in urlencode qs)))"

section \<open>The Line Parser\<close>

text \<open>\<^verbatim>\<open>tokens[-1]\<close>: the last element, an \<^verbatim>\<open>IndexError\<close> on the empty list.\<close>

definition index_last :: "'a list \<Rightarrow> py_error + 'a" where
  "index_last xs = (if xs = [] then Inl IndexError else Inr (last xs))"

text \<open>
  The chain of formats in the loop body of \<^verbatim>\<open>_parse_ascii\<close> (lines 70 to 93), on the
  tokens of one line: \<open>Inr (Some (dt, cnt))\<close> is the row appended, \<open>Inr None\<close> is
  \<^verbatim>\<open>continue\<close>. The indices 0, 1 and 2 are read behind the length tests, as in the
  source, where \<^verbatim>\<open>and\<close> evaluates its right operand only if the left one holds; the
  third test reads \<^verbatim>\<open>tokens[-1]\<close> before it looks at the length.
\<close>

definition parse_tokens :: "pystr list \<Rightarrow> py_error + (pystr \<times> pystr) option" where
  "parse_tokens tokens =
     (if length tokens \<ge> 3 \<and> matches DATE_RE (tokens ! 0) \<and> matches CLOCK_RE (tokens ! 1)
      then Inr (Some (tokens ! 0 @ ustr '' '' @ tokens ! 1, tokens ! 2))
      else if length tokens \<ge> 2 \<and> matches DATE_RE (tokens ! 0) \<and> matches NUM_RE (tokens ! 1)
      then Inr (Some (tokens ! 0, tokens ! 1))
      else
        (case index_last tokens of
           Inl e \<Rightarrow> Inl e
         | Inr t \<Rightarrow>
             if matches NUM_RE t \<and> length tokens \<ge> 2
             then Inr (Some (str_join (ustr '' '') (butlast tokens), t))
             else
               (let joined = str_join (ustr '' '') tokens;
                    m = re_search DATETIME_RE joined;
                    n = re_search NUM_RE joined
                in case (m, n) of
                     (Some sm, Some sn) \<Rightarrow>
                       Inr (Some (str_replace (ord CHR ''T'') (ord CHR '' '') (group0 joined sm),
                                  group0 joined sn))
                   | _ \<Rightarrow> Inr None)))"

text \<open>The loop body from line 66 on: strip, skip blank and comment lines, tokenize.\<close>

definition parse_line :: "pystr \<Rightarrow> py_error + (pystr \<times> pystr) option" where
  "parse_line ln =
     (let line = str_strip ln
      in if line = [] \<or> str_startswith line (ustr ''#'') then Inr None
         else parse_tokens (str_split line))"

text \<open>The loop over the lines (lines 64 to 95): the rows appended, in order.\<close>

fun parse_lines :: "pystr list \<Rightarrow> py_error + (pystr \<times> pystr) list" where
  "parse_lines [] = Inr []"
| "parse_lines (ln # lns) =
     (case parse_line ln of
        Inl e \<Rightarrow> Inl e
      | Inr None \<Rightarrow> parse_lines lns
      | Inr (Some row) \<Rightarrow>
          (case parse_lines lns of Inl e \<Rightarrow> Inl e | Inr rows \<Rightarrow> Inr (row # rows)))"

section \<open>The library the program runs on\<close>

text \<open>
  What the program calls and does not define: the URL parser and its inverse, the
  HTTP request (\<^verbatim>\<open>requests.get\<close>, \<^verbatim>\<open>raise_for_status\<close> and \<^verbatim>\<open>r.text\<close> together: the
  body of the answer, or the exception raised), and the column operations of
  pandas. \<^verbatim>\<open>to_datetime\<close> and \<^verbatim>\<open>to_numeric\<close> with \<^verbatim>\<open>errors='coerce'\<close> work on a whole
  column and give one value or none (NaT, NaN) per entry; \<^verbatim>\<open>sort_values\<close> orders the
  rows by their timestamp with the default algorithm of pandas; \<^verbatim>\<open>to_csv\<close> gives
  the bytes of the CSV file of the table. The types of timestamps and counts are left open.
\<close>

record ('t, 'n) library =
  urlparse :: "pystr \<Rightarrow> py_error + url"
  urlunparse :: "url \<Rightarrow> pystr"
  http_get :: "pystr \<Rightarrow> py_error + pystr"
  to_datetime :: "pystr list \<Rightarrow> 't option list"
  to_numeric :: "pystr list \<Rightarrow> 'n option list"
  sort_values :: "('t \<times> 'n) list \<Rightarrow> ('t \<times> 'n) list"
  to_csv :: "('t \<times> 'n) list \<Rightarrow> nat list"

text \<open>\<^verbatim>\<open>_build_ascii_url\<close>.\<close>

definition build_ascii_url ::
  "('t, 'n) library \<Rightarrow> pystr \<Rightarrow> pystr \<Rightarrow> pystr \<Rightarrow> pystr \<Rightarrow> pystr \<Rightarrow> py_error + pystr" where
  "build_ascii_url lib base_url start_date start_time end_date end_time =
     (case urlparse lib base_url of
        Inl e \<Rightarrow> Inl e
      | Inr p \<Rightarrow>
          (case build_query (query p) start_date start_time end_date end_time of
             Inl e \<Rightarrow> Inl e
           | Inr new_q \<Rightarrow> Inr (urlunparse lib (p\<lparr>query := new_q\<rparr>))))"

text \<open>
  \<^verbatim>\<open>_download_text\<close>: one GET request with the client header and the timeout of 30
  seconds; the body as text, or the exception of the request or of
  \<^verbatim>\<open>raise_for_status\<close>.
\<close>

definition download_text :: "('t, 'n) library \<Rightarrow> pystr \<Rightarrow> py_error + pystr" where
  "download_text lib url = http_get lib url"

section \<open>The Table Assembler\<close>

text \<open>
  Lines 97 to 101 of \<^verbatim>\<open>_parse_ascii\<close>: both columns are converted, the rows with a
  missing timestamp or count are dropped, the rest is sorted by timestamp.
\<close>

definition dropna :: "('t option \<times> 'n option) list \<Rightarrow> ('t \<times> 'n) list" where
  "dropna rows =
     List.map_filter
       (\<lambda>(dt, cnt). case dt of None \<Rightarrow> None
                     | Some t \<Rightarrow> (case cnt of None \<Rightarrow> None | Some c \<Rightarrow> Some (t, c)))
       rows"

definition assemble :: "('t, 'n) library \<Rightarrow> (pystr \<times> pystr) list \<Rightarrow> ('t \<times> 'n) list" where
  "assemble lib rows =
     sort_values lib
       (dropna (zip (to_datetime lib (map fst rows)) (to_numeric lib (map snd rows))))"

text \<open>\<^verbatim>\<open>_parse_ascii\<close>.\<close>

definition parse_ascii :: "('t, 'n) library \<Rightarrow> pystr \<Rightarrow> py_error + ('t \<times> 'n) list" where
  "parse_ascii lib text =
     (case parse_lines (str_splitlines text) of
        Inl e \<Rightarrow> Inl e
      | Inr rows \<Rightarrow> Inr (assemble lib rows))"

section \<open>The main operation\<close>

text \<open>
  What the operation does to the outside: the files it writes (a path holds the bytes
  last written to it), the URLs it requests, and the lines it prints.
\<close>

record world =
  files :: "pystr \<rightharpoonup> nat list"
  requested :: "pystr list"
  stdout :: "pystr list"

definition DEFAULT_URL :: pystr where
  "DEFAULT_URL = ustr
     (''https://www.nmdb.eu/nest/draw_graph.php?'' @
      ''formchk=1&stations[]=OULU&tabchoice=revori&dtype=corr_for_efficiency&'' @
      ''tresolution=5&yunits=0&shift=2&date_choice=bydate&'' @
      ''start_day=29&start_month=7&start_year=2025&start_hour=0&start_min=0&'' @
      ''end_day=29&end_month=8&end_year=2025&end_hour=23&end_min=59&'' @
      ''output=plot&ygrid=1&mline=1&transp=0&fontsize=1&text_color=222222&'' @
      ''background_color=FFFFFF&margin_color=FFFFFF'')"

text \<open>\<^verbatim>\<open>str(n)\<close> for the row count in the last message.\<close>

function str_of_nat :: "nat \<Rightarrow> pystr" where
  "str_of_nat n = (if n < 10 then [0x30 + n] else str_of_nat (n div 10) @ [0x30 + n mod 10])"
  by pat_completeness auto
termination
  by (relation "measure id") auto

text \<open>
  Lines 118 and 119, \<^verbatim>\<open>open(path, 'w', encoding='utf-8')\<close> and \<^verbatim>\<open>f.write(text)\<close>: opening
  the file empties it, then the text is encoded and written. A text that UTF-8 cannot
  encode makes the write raise \<^verbatim>\<open>UnicodeEncodeError\<close>, and the file stays empty. The
  line separator of the platform is taken to be \<^verbatim>\<open>\n\<close>, so that no newline is translated.
\<close>

definition write_text :: "pystr \<Rightarrow> pystr \<Rightarrow> world \<Rightarrow> py_error option \<times> world" where
  "write_text file_path text w =
     (let w' = w\<lparr>files := (files w)(file_path \<mapsto> [])\<rparr>
      in case utf8_encode text of
           Inl e \<Rightarrow> (Some e, w')
         | Inr bs \<Rightarrow> (None, w'\<lparr>files := (files w')(file_path \<mapsto> bs)\<rparr>))"

text \<open>
  \<^verbatim>\<open>nmdb_data\<close>. \<open>base_url\<close> is \<open>None\<close> when the argument is left out; \<^verbatim>\<open>base_url or
  DEFAULT_URL\<close> also replaces an empty string.
\<close>

definition nmdb_data ::
  "('t, 'n) library \<Rightarrow> pystr \<Rightarrow> pystr \<Rightarrow> pystr \<Rightarrow> pystr \<Rightarrow> pystr \<Rightarrow> pystr option \<Rightarrow> world
     \<Rightarrow> (py_error + pystr \<times> ('t \<times> 'n) list) \<times> world" where
  "nmdb_data lib start_date start_time end_date end_time out_csv base_url w =
     (let base = (case base_url of None \<Rightarrow> DEFAULT_URL
                  | Some b \<Rightarrow> if b = [] then DEFAULT_URL else b)
      in case build_ascii_url lib base start_date start_time end_date end_time of
           Inl e \<Rightarrow> (Inl e, w)
         | Inr url_ascii \<Rightarrow>
             (let w1 = w\<lparr>stdout := stdout w @ [ustr ''Descargando: '' @ url_ascii]\<rparr>;
                  w2 = w1\<lparr>requested := requested w1 @ [url_ascii]\<rparr>
              in case download_text lib url_ascii of
                   Inl e \<Rightarrow> (Inl e, w2)
                 | Inr text \<Rightarrow>
                     (case parse_ascii lib text of
                        Inl e \<Rightarrow> (Inl e, w2)
                      | Inr df \<Rightarrow>
                          if df = []
                          then
                            (case write_text (ustr ''nmdb_debug.txt'') text w2 of
                               (Some e, w3) \<Rightarrow> (Inl e, w3)
                             | (None, w3) \<Rightarrow>
                                 (Inl (RuntimeError
                                    (ustr ''No se extrajeron filas v'' @ [0xE1] @
                                     ustr ''lidas. Revisa nmdb_debug.txt'')),
                                  w3))
                          else
                            (let w3 = w2\<lparr>files := (files w2)(out_csv \<mapsto> to_csv lib df)\<rparr>;
                                 w4 = w3\<lparr>stdout := stdout w3 @
                                        [ustr ''CSV guardado en: '' @ out_csv @
                                         ustr ''  (filas: '' @ str_of_nat (length df) @
                                         ustr '')'']\<rparr>
                             in (Inr (out_csv, df), w4)))))"

section \<open>The specification's reading, for comparison with the code\<close>

text \<open>
  The four formats of the Line Parser as the specification lists them, each on its
  own: what the format would make of the tokens if it were the only one.
  \<open>format_D\<close> searches with the program's own numeric pattern, \<open>format_D_spec\<close>
  searches for a numeric substring, as the specification words it.
\<close>

definition format_A :: "pystr list \<Rightarrow> (pystr \<times> pystr) option" where
  "format_A tokens =
     (if length tokens \<ge> 3 \<and> matches DATE_RE (tokens ! 0) \<and> matches CLOCK_RE (tokens ! 1)
      then Some (tokens ! 0 @ ustr '' '' @ tokens ! 1, tokens ! 2) else None)"

definition format_B :: "pystr list \<Rightarrow> (pystr \<times> pystr) option" where
  "format_B tokens =
     (if length tokens \<ge> 2 \<and> matches DATE_RE (tokens ! 0) \<and> matches NUM_RE (tokens ! 1)
      then Some (tokens ! 0, tokens ! 1) else None)"

definition format_C :: "pystr list \<Rightarrow> (pystr \<times> pystr) option" where
  "format_C tokens =
     (if length tokens \<ge> 2 \<and> matches NUM_RE (last tokens)
      then Some (str_join (ustr '' '') (butlast tokens), last tokens) else None)"

definition format_D :: "pystr list \<Rightarrow> (pystr \<times> pystr) option" where
  "format_D tokens =
     (let joined = str_join (ustr '' '') tokens
      in case re_search DATETIME_RE joined of
           None \<Rightarrow> None
         | Some sm \<Rightarrow>
             (case re_search NUM_RE joined of
                None \<Rightarrow> None
              | Some sn \<Rightarrow>
                  Some (str_replace (ord CHR ''T'') (ord CHR '' '') (group0 joined sm),
                        group0 joined sn)))"

text \<open>The numeric pattern without its anchors: what a numeric substring is.\<close>

definition NUM_BODY_RE :: regex where
  "NUM_BODY_RE = seq [Opt (any_of ''+-''), Plus Digit,
                      Opt (seq [chr CHR ''.'', Plus Digit]),
                      Opt (seq [any_of ''eE'', Opt (any_of ''+-''), Plus Digit])]"

definition format_D_spec :: "pystr list \<Rightarrow> (pystr \<times> pystr) option" where
  "format_D_spec tokens =
     (let joined = str_join (ustr '' '') tokens
      in case re_search DATETIME_RE joined of
           None \<Rightarrow> None
         | Some sm \<Rightarrow>
             (case re_search NUM_BODY_RE joined of
                None \<Rightarrow> None
              | Some sn \<Rightarrow>
                  Some (str_replace (ord CHR ''T'') (ord CHR '' '') (group0 joined sm),
                        group0 joined sn)))"

text \<open>First match wins: the formats are tried in the order of the list.\<close>

fun first_match :: "('a \<Rightarrow> 'b option) list \<Rightarrow> 'a \<Rightarrow> 'b option" where
  "first_match [] x = None"
| "first_match (f # fs) x = (case f x of Some y \<Rightarrow> Some y | None \<Rightarrow> first_match fs x)"

text \<open>
  A field of the query without its leading zeros, and \<^verbatim>\<open>0\<close> when nothing is left: the
  rendering rule of the URL Builder as the specification states it.
\<close>

fun without_leading_zeros :: "pystr \<Rightarrow> pystr" where
  "without_leading_zeros [] = ustr ''0''"
| "without_leading_zeros (c # cs) =
     (if c = ord CHR ''0'' then without_leading_zeros cs else c # cs)"

text \<open>
  The shapes four digits, dash, two digits, dash, two digits and two digits, colon,
  two digits. A digit is what \<^verbatim>\<open>\d\<close> matches, the ASCII digits among them.
\<close>

definition date_shape :: "pystr \<Rightarrow> bool" where
  "date_shape s \<longleftrightarrow>
     length s = 10 \<and> list_all isdecimal (take 4 s) \<and> s ! 4 = ord CHR ''-'' \<and>
     list_all isdecimal (take 2 (drop 5 s)) \<and> s ! 7 = ord CHR ''-'' \<and>
     list_all isdecimal (drop 8 s)"


section \<open>Auxiliary notions\<close>

text \<open>The messages of the two validation errors and of the empty-result error.\<close>

definition date_error :: py_error where
  "date_error = ValueError (ustr ''date debe tener formato YYYY-MM-DD'')"

definition time_error :: py_error where
  "time_error = ValueError (ustr ''time debe tener formato HH:MM'')"


text \<open>The base URL the operation works on: \<^verbatim>\<open>base_url or DEFAULT_URL\<close>.\<close>

definition base_of :: "pystr option \<Rightarrow> pystr" where
  "base_of base_url =
     (case base_url of None \<Rightarrow> DEFAULT_URL | Some b \<Rightarrow> if b = [] then DEFAULT_URL else b)"

text \<open>
  A library to run the operation on in the examples: the URL is cut at the first
  question mark, the server answers every request with the same text, no entry of a
  column converts, and the order of the rows is kept.
\<close>

definition stub_library :: "pystr \<Rightarrow> (nat, nat) library" where
  "stub_library answer =
     \<lparr>urlparse = (\<lambda>u. Inr \<lparr>scheme = [], netloc = [],
                           path = takeWhile (\<lambda>c. c \<noteq> ord CHR ''?'') u, params = [],
                           query = drop 1 (dropWhile (\<lambda>c. c \<noteq> ord CHR ''?'') u),
                           fragment = []\<rparr>),
      urlunparse = (\<lambda>p. path p @ ustr ''?'' @ query p),
      http_get = (\<lambda>u. Inr answer),
      to_datetime = map (\<lambda>x. None),
      to_numeric = map (\<lambda>x. None),
      sort_values = (\<lambda>rows. rows),
      to_csv = (\<lambda>rows. [])\<rparr>"

text \<open>The characters a pattern can consume.\<close>

fun consumes :: "regex \<Rightarrow> codepoint \<Rightarrow> bool" where
  "consumes Eps c = False"
| "consumes Bol c = False"
| "consumes Eol c = False"
| "consumes (Cls k) c = in_class k c"
| "consumes (Times n k) c = in_class k c"
| "consumes (Plus k) c = in_class k c"
| "consumes (Opt r) c = consumes r c"
| "consumes (Seq r1 r2) c = (consumes r1 c \<or> consumes r2 c)"

text \<open>
  The eleven parameters the URL Builder sets, in the order of the assignments.
\<close>

definition overwritten :: "pystr list" where
  "overwritten = map ustr [''start_day'', ''start_month'', ''start_year'', ''start_hour'',
     ''start_min'', ''end_day'', ''end_month'', ''end_year'', ''end_hour'', ''end_min'',
     ''output'']"

text \<open>
  A parameter as \<^verbatim>\<open>urlencode\<close> writes it: the quoted name, an equals sign, the quoted
  value. \<open>quoted\<close> is the result of \<^verbatim>\<open>quote_plus\<close> where it succeeds. \<open>items\<close> lists the
  pairs of a name and one of its values.
\<close>

definition quoted :: "pystr \<Rightarrow> pystr" where
  "quoted s = (case quote_plus s of Inr q \<Rightarrow> q | Inl e \<Rightarrow> [])"

definition param :: "pystr \<times> pystr \<Rightarrow> pystr" where
  "param kv = quoted (fst kv) @ ustr ''='' @ quoted (snd kv)"

definition items :: "qdict \<Rightarrow> (pystr \<times> pystr) list" where
  "items d = concat (map (\<lambda>(k, vs). map (Pair k) vs) d)"

text \<open>
  The query of \<^verbatim>\<open>DEFAULT_URL\<close>, and what the URL Builder makes of it for the window of
  the docstring's example, 2025-07-29 00:00 to 2025-08-29 23:59.
\<close>

definition default_query :: pystr where
  "default_query = ustr (''formchk=1&stations[]=OULU&tabchoice=revori&dtype=corr_for_efficiency&'' @
      ''tresolution=5&yunits=0&shift=2&date_choice=bydate&'' @
      ''start_day=29&start_month=7&start_year=2025&start_hour=0&start_min=0&'' @
      ''end_day=29&end_month=8&end_year=2025&end_hour=23&end_min=59&'' @
      ''output=plot&ygrid=1&mline=1&transp=0&fontsize=1&text_color=222222&'' @
      ''background_color=FFFFFF&margin_color=FFFFFF'')"

definition rebuilt_default_query :: pystr where
  "rebuilt_default_query = ustr (''formchk=1&stations%5B%5D=OULU&tabchoice=revori&dtype=corr_for_efficiency&'' @
      ''tresolution=5&yunits=0&shift=2&date_choice=bydate&'' @
      ''start_day=29&start_month=7&start_year=2025&start_hour=0&start_min=0&'' @
      ''end_day=29&end_month=8&end_year=2025&end_hour=23&end_min=59&'' @
      ''output=ascii&ygrid=1&mline=1&transp=0&fontsize=1&text_color=222222&'' @
      ''background_color=FFFFFF&margin_color=FFFFFF'')"

section \<open>The Line Parser raises nothing\<close>

text \<open>The definitions to unfold when a string function is run on a literal.\<close>

lemmas str_eval =
  ustr_def ord_def str_strip_def isspace_def str_split_def str_startswith_def
  str_split_on_def str_lstrip_def str_or_def str_replace_def

lemmas url_eval =
  parse_qs_def parse_qsl_def parse_field_def partition_eq_def
  unquote_plus_def unquote_def dict_append_def dict_set_def urlencode_def
  quote_plus_def quote_def quote_byte_def always_safe_def hexdigit_def
  utf8_encode_char_def List.map_filter_def

lemmas re_eval =
  matches_def re_match_def re_search_def group0_def seq_def chr_def any_of_def
  isdecimal_def decimal_zeros_def DATE_RE_def TIME_RE_def NUM_RE_def CLOCK_RE_def
  DATETIME_RE_def

lemma split_from_Nil_iff: "split_from cur s = [] \<longleftrightarrow> cur = [] \<and> list_all isspace s"
  by (induction s arbitrary: cur) auto

lemma str_split_Nil_iff: "str_split s = [] \<longleftrightarrow> list_all isspace s"
  by (simp add: str_split_def split_from_Nil_iff)

lemma str_strip_hd: "str_strip s \<noteq> [] \<Longrightarrow> \<not> isspace (hd (str_strip s))"
proof -
  assume a: "str_strip s \<noteq> []"
  let ?t = "dropWhile isspace s"
  have t: "?t \<noteq> []"
  proof
    assume "?t = []"
    then have "str_strip s = []"
      by (simp only: str_strip_def rev.simps dropWhile.simps)
    with a show False by simp
  qed
  then have h: "\<not> isspace (hd ?t)" by (rule hd_dropWhile)
  have "\<exists>ys. rev (dropWhile isspace (rev ?t)) = hd ?t # ys"
  proof (cases ?t)
    case Nil
    with t show ?thesis by simp
  next
    case (Cons x xs)
    with h have nx: "\<not> isspace x" by simp
    have "dropWhile isspace (rev xs @ [x]) = dropWhile isspace (rev xs) @ [x]"
      using nx by (simp add: dropWhile_append)
    then show ?thesis using Cons by (simp del: dropWhile_append)
  qed
  then show ?thesis using h by (auto simp: str_strip_def)
qed

lemma str_split_strip_nonempty: "str_strip ln \<noteq> [] \<Longrightarrow> str_split (str_strip ln) \<noteq> []"
proof
  assume a: "str_strip ln \<noteq> []" and b: "str_split (str_strip ln) = []"
  from b have "list_all isspace (str_strip ln)" by (simp add: str_split_Nil_iff)
  with a have "isspace (hd (str_strip ln))" by (cases "str_strip ln") auto
  with str_strip_hd[OF a] show False by simp
qed

lemma parse_tokens_no_error: "tokens \<noteq> [] \<Longrightarrow> \<exists>r. parse_tokens tokens = Inr r"
  by (auto simp: parse_tokens_def index_last_def Let_def split: option.splits)

lemma parse_line_no_error: "\<exists>r. parse_line ln = Inr r"
  using parse_tokens_no_error[OF str_split_strip_nonempty, of ln]
  by (auto simp: parse_line_def Let_def)

lemma parse_lines_no_error: "\<exists>rows. parse_lines lns = Inr rows"
proof (induction lns)
  case Nil
  show ?case by simp
next
  case (Cons ln lns)
  obtain r where r: "parse_line ln = Inr r" using parse_line_no_error by blast
  from Cons obtain rows where "parse_lines lns = Inr rows" by blast
  with r show ?case by (cases r) auto
qed

text \<open>
  C9. The Line Parser is total. A line that is not empty after stripping splits into
  at least one token, so the read of the last token in the test of Format C never
  meets an empty list: no line, and so no text, makes the parser raise.
\<close>

theorem line_parser_total:
  "(str_strip ln \<noteq> [] \<longrightarrow>
      str_split (str_strip ln) \<noteq> [] \<and>
      index_last (str_split (str_strip ln)) = Inr (last (str_split (str_strip ln)))) \<and>
   (\<exists>r. parse_line ln = Inr r) \<and>
   (\<exists>rows. parse_lines (str_splitlines text) = Inr rows \<and>
            parse_ascii lib text = Inr (assemble lib rows))"
proof -
  obtain rows where "parse_lines (str_splitlines text) = Inr rows"
    using parse_lines_no_error by blast
  then have "parse_lines (str_splitlines text) = Inr rows \<and>
             parse_ascii lib text = Inr (assemble lib rows)"
    by (simp add: parse_ascii_def)
  then show ?thesis
    using str_split_strip_nonempty[of ln] parse_line_no_error[of ln]
    by (auto simp: index_last_def)
qed

theorem line_parser_total_witness:
  "str_strip (ustr '' Jul 29 12.5 '') \<noteq> [] \<and>
   str_split (str_strip (ustr '' Jul 29 12.5 '')) = [ustr ''Jul'', ustr ''29'', ustr ''12.5''] \<and>
   index_last (str_split (str_strip (ustr '' Jul 29 12.5 ''))) = Inr (ustr ''12.5'')"
proof -
  have h: "str_strip (ustr '' Jul 29 12.5 '') \<noteq> []"
    by (simp add: str_eval)
  have s: "str_split (str_strip (ustr '' Jul 29 12.5 '')) =
           [ustr ''Jul'', ustr ''29'', ustr ''12.5'']"
    by (simp add: str_eval)
  from line_parser_total [of "ustr '' Jul 29 12.5 ''" "[]"] h
  have "index_last (str_split (str_strip (ustr '' Jul 29 12.5 ''))) =
        Inr (last (str_split (str_strip (ustr '' Jul 29 12.5 ''))))"
    by blast
  with h s show ?thesis by simp
qed

section \<open>The order of the formats\<close>

lemma parse_tokens_first_match:
  "tokens \<noteq> [] \<Longrightarrow>
   parse_tokens tokens = Inr (first_match [format_A, format_B, format_C, format_D] tokens)"
  by (auto simp: parse_tokens_def index_last_def format_A_def format_B_def format_C_def
        format_D_def Let_def split: option.splits)

text \<open>
  C1. On a line that is neither empty nor a comment the parser returns what the first
  matching format, in the order A, B, C, D, makes of the tokens. In particular three or
  more tokens that start with a date and a time are parsed by Format A, whatever
  follows: the row is the date and the time joined by a space, and the third token.
\<close>

theorem first_match_wins:
  assumes "str_strip ln \<noteq> []" and "\<not> str_startswith (str_strip ln) (ustr ''#'')"
    and "tokens = str_split (str_strip ln)"
  shows "parse_line ln = Inr (first_match [format_A, format_B, format_C, format_D] tokens) \<and>
         (length tokens \<ge> 3 \<and> matches DATE_RE (tokens ! 0) \<and> matches CLOCK_RE (tokens ! 1) \<longrightarrow>
            parse_line ln = Inr (Some (tokens ! 0 @ ustr '' '' @ tokens ! 1, tokens ! 2)))"
proof -
  from assms(1,3) have ne: "tokens \<noteq> []" by (simp add: str_split_strip_nonempty)
  have "parse_line ln = parse_tokens tokens"
    using assms by (simp add: parse_line_def Let_def)
  then show ?thesis
    using parse_tokens_first_match[OF ne] by (simp add: format_A_def)
qed

text \<open>
  The line of the specification's scenario has the shape of Format A and ends in two
  numbers. Format C alone would take the last number as the count; the parser
  returns the row of Format A.
\<close>

theorem first_match_wins_witness:
  "parse_line (ustr ''2025-07-29 00:05:00   12345.6   3.2'') =
     Inr (Some (ustr ''2025-07-29 00:05:00'', ustr ''12345.6'')) \<and>
   format_C (str_split (str_strip (ustr ''2025-07-29 00:05:00   12345.6   3.2''))) =
     Some (ustr ''2025-07-29 00:05:00 12345.6'', ustr ''3.2'')"
proof -
  let ?ln = "ustr ''2025-07-29 00:05:00   12345.6   3.2''"
  let ?tokens = "[ustr ''2025-07-29'', ustr ''00:05:00'', ustr ''12345.6'', ustr ''3.2'']"
  have tk: "?tokens = str_split (str_strip ?ln)"
    by (simp add: str_eval)
  have a: "str_strip ?ln \<noteq> []"
    by (simp add: str_eval)
  have b: "\<not> str_startswith (str_strip ?ln) (ustr ''#'')"
    by (simp add: str_eval)
  have d: "matches DATE_RE (ustr ''2025-07-29'')"
    by (simp add: re_eval str_eval)
  have c: "matches CLOCK_RE (ustr ''00:05:00'')"
    by (simp add: re_eval str_eval)
  have n: "matches NUM_RE (ustr ''3.2'')"
    by (simp add: re_eval str_eval)
  from first_match_wins [OF a b tk, THEN conjunct2] d c
  have "parse_line ?ln = Inr (Some (ustr ''2025-07-29'' @ ustr '' '' @ ustr ''00:05:00'',
                                    ustr ''12345.6''))"
    by simp
  then have r: "parse_line ?ln = Inr (Some (ustr ''2025-07-29 00:05:00'', ustr ''12345.6''))"
    by (simp add: ustr_def)
  have "format_C ?tokens = Some (ustr ''2025-07-29 00:05:00 12345.6'', ustr ''3.2'')"
    using n by (simp add: format_C_def ustr_def)
  with r tk show ?thesis by simp
qed

section \<open>Validation of the Query Window\<close>

lemma isdecimal_range: "isdecimal c \<Longrightarrow> (48 \<le> c \<and> c \<le> 57) \<or> 1632 \<le> c"
  unfolding isdecimal_def decimal_zeros_def by (simp, arith)

lemma isdecimal_ascii: "48 \<le> c \<Longrightarrow> c \<le> 57 \<Longrightarrow> isdecimal c"
  unfolding isdecimal_def decimal_zeros_def by simp

lemma isdecimal_not_sep: "isdecimal c \<Longrightarrow> c \<noteq> 45 \<and> c \<noteq> 58 \<and> c \<noteq> 10"
  using isdecimal_range[of c] by auto

lemma in_class_Digit: "in_class Digit = isdecimal"
  by (rule ext) simp

lemma matches_DATE_RE_iff:
  "matches DATE_RE s \<longleftrightarrow>
     (length s = 10 \<or> (length s = 11 \<and> s ! 10 = 10)) \<and>
     list_all isdecimal (take 4 s) \<and> s ! 4 = 45 \<and>
     list_all isdecimal (take 2 (drop 5 s)) \<and> s ! 7 = 45 \<and>
     list_all isdecimal (take 2 (drop 8 s))"
  by (auto simp: in_class_Digit matches_def re_match_def DATE_RE_def seq_def chr_def ord_def
       split: list.splits if_splits)

lemma matches_TIME_RE_iff:
  "matches TIME_RE s \<longleftrightarrow>
     (length s = 5 \<or> (length s = 6 \<and> s ! 5 = 10)) \<and>
     list_all isdecimal (take 2 s) \<and> s ! 2 = 58 \<and>
     list_all isdecimal (take 2 (drop 3 s))"
  unfolding matches_def re_match_def TIME_RE_def seq_def chr_def ord_def
  by (simp add: in_class_Digit split: list.splits) (auto simp: eval_nat_numeral)

lemma lstrip_or_zero:
  "str_or (str_lstrip (ord CHR ''0'') s) (ustr ''0'') = without_leading_zeros s"
  by (induction s)
     (auto simp: str_or_def str_lstrip_def simp del: dropWhile_eq_Nil_conv split: if_splits)

lemma without_leading_zeros_nonempty: "without_leading_zeros s \<noteq> []"
  by (induction s) (auto simp: ustr_def)

lemma DATE_RE_form:
  assumes "matches DATE_RE s"
  shows "\<exists>a b c d e f g h r. s = [a, b, c, d, 45, e, f, 45, g, h] @ r \<and> (r = [] \<or> r = [10]) \<and>
           isdecimal a \<and> isdecimal b \<and> isdecimal c \<and> isdecimal d \<and>
           isdecimal e \<and> isdecimal f \<and> isdecimal g \<and> isdecimal h"
proof -
  from assms have m:
    "length s = 10 \<or> (length s = 11 \<and> s ! 10 = 10)"
    "list_all isdecimal (take 4 s)" "s ! 4 = 45"
    "list_all isdecimal (take 2 (drop 5 s))" "s ! 7 = 45"
    "list_all isdecimal (take 2 (drop 8 s))"
    by (simp_all add: matches_DATE_RE_iff)
  from m(1) show ?thesis
  proof
    assume "length s = 10"
    then obtain a b c d x e f y g h where s: "s = [a, b, c, d, x, e, f, y, g, h]"
      by (auto simp: eval_nat_numeral length_Suc_conv)
    with m show ?thesis by simp
  next
    assume l: "length s = 11 \<and> s ! 10 = 10"
    then obtain a b c d x e f y g h z where s: "s = [a, b, c, d, x, e, f, y, g, h, z]"
      by (auto simp: eval_nat_numeral length_Suc_conv)
    with m l show ?thesis by simp
  qed
qed

lemma TIME_RE_form:
  assumes "matches TIME_RE s"
  shows "\<exists>a b c d r. s = [a, b, 58, c, d] @ r \<and> (r = [] \<or> r = [10]) \<and>
           isdecimal a \<and> isdecimal b \<and> isdecimal c \<and> isdecimal d"
proof -
  from assms have m:
    "length s = 5 \<or> (length s = 6 \<and> s ! 5 = 10)"
    "list_all isdecimal (take 2 s)" "s ! 2 = 58"
    "list_all isdecimal (take 2 (drop 3 s))"
    by (simp_all add: matches_TIME_RE_iff)
  from m(1) show ?thesis
  proof
    assume "length s = 5"
    then obtain a b x c d where s: "s = [a, b, x, c, d]"
      by (auto simp: eval_nat_numeral length_Suc_conv)
    with m show ?thesis by simp
  next
    assume l: "length s = 6 \<and> s ! 5 = 10"
    then obtain a b x c d z where s: "s = [a, b, x, c, d, z]"
      by (auto simp: eval_nat_numeral length_Suc_conv)
    with m l show ?thesis by simp
  qed
qed

lemma split_date:
  assumes "matches DATE_RE s"
  shows "str_split_on (ord CHR ''-'') s = [take 4 s, take 2 (drop 5 s), drop 8 s]"
proof -
  from DATE_RE_form[OF assms] obtain a b c d e f g h r where
    s: "s = [a, b, c, d, 45, e, f, 45, g, h] @ r" and r: "r = [] \<or> r = [10]" and
    dg: "isdecimal a" "isdecimal b" "isdecimal c" "isdecimal d"
        "isdecimal e" "isdecimal f" "isdecimal g" "isdecimal h"
    by blast
  from dg have "a \<noteq> 45" "b \<noteq> 45" "c \<noteq> 45" "d \<noteq> 45" "e \<noteq> 45" "f \<noteq> 45" "g \<noteq> 45" "h \<noteq> 45"
    using isdecimal_not_sep by blast+
  with s r show ?thesis
    by (auto simp: str_split_on_def ord_def)
qed

lemma split_time:
  assumes "matches TIME_RE s"
  shows "str_split_on (ord CHR '':'') s = [take 2 s, drop 3 s]"
proof -
  from TIME_RE_form[OF assms] obtain a b c d r where
    s: "s = [a, b, 58, c, d] @ r" and r: "r = [] \<or> r = [10]" and
    dg: "isdecimal a" "isdecimal b" "isdecimal c" "isdecimal d"
    by blast
  from dg have "a \<noteq> 58" "b \<noteq> 58" "c \<noteq> 58" "d \<noteq> 58"
    using isdecimal_not_sep by blast+
  with s r show ?thesis
    by (auto simp: str_split_on_def ord_def)
qed

lemma query_parts_valid:
  assumes "matches DATE_RE date_str" and "matches TIME_RE time_str"
  shows "date_time_to_query_parts date_str time_str =
           Inr (without_leading_zeros (drop 8 date_str),
                without_leading_zeros (take 2 (drop 5 date_str)),
                take 4 date_str,
                without_leading_zeros (take 2 time_str),
                without_leading_zeros (drop 3 time_str))"
  using assms
  by (simp add: date_time_to_query_parts_def split_date split_time lstrip_or_zero)

lemma query_parts_invalid:
  assumes "\<not> matches DATE_RE date_str \<or> \<not> matches TIME_RE time_str"
  shows "date_time_to_query_parts date_str time_str = Inl date_error \<or>
         date_time_to_query_parts date_str time_str = Inl time_error"
  using assms by (auto simp: date_time_to_query_parts_def date_error_def time_error_def)

text \<open>
  C6. For a valid date and time the parts are the day, the month, the hour and the
  minute without their leading zeros, and the year as it stands; \<^verbatim>\<open>00\<close> becomes \<^verbatim>\<open>0\<close>,
  \<^verbatim>\<open>05\<close> becomes \<^verbatim>\<open>5\<close>, and no part is ever empty.
\<close>

theorem query_parts_without_leading_zeros:
  assumes "matches DATE_RE date_str" and "matches TIME_RE time_str"
  shows "date_time_to_query_parts date_str time_str =
           Inr (without_leading_zeros (drop 8 date_str),
                without_leading_zeros (take 2 (drop 5 date_str)),
                take 4 date_str,
                without_leading_zeros (take 2 time_str),
                without_leading_zeros (drop 3 time_str)) \<and>
         without_leading_zeros (ustr ''00'') = ustr ''0'' \<and>
         without_leading_zeros (ustr ''05'') = ustr ''5'' \<and>
         without_leading_zeros field \<noteq> []"
  using query_parts_valid[OF assms] without_leading_zeros_nonempty[of field]
  by (simp add: ustr_def ord_def)

theorem query_parts_without_leading_zeros_witness:
  "matches DATE_RE (ustr ''2025-07-00'') \<and> matches TIME_RE (ustr ''05:00'') \<and>
   date_time_to_query_parts (ustr ''2025-07-00'') (ustr ''05:00'') =
     Inr (ustr ''0'', ustr ''7'', ustr ''2025'', ustr ''5'', ustr ''0'')"
proof -
  have d: "matches DATE_RE (ustr ''2025-07-00'')"
    by (simp add: re_eval str_eval)
  have t: "matches TIME_RE (ustr ''05:00'')"
    by (simp add: re_eval str_eval)
  from query_parts_without_leading_zeros [OF d t]
  have "date_time_to_query_parts (ustr ''2025-07-00'') (ustr ''05:00'') =
          Inr (ustr ''0'', ustr ''7'', ustr ''2025'', ustr ''5'', ustr ''0'')"
    by (simp add: ustr_def ord_def)
  with d t show ?thesis by simp
qed

lemma build_query_invalid:
  assumes "\<not> matches DATE_RE start_date \<or> \<not> matches TIME_RE start_time \<or>
           \<not> matches DATE_RE end_date \<or> \<not> matches TIME_RE end_time"
  shows "build_query q start_date start_time end_date end_time = Inl date_error \<or>
         build_query q start_date start_time end_date end_time = Inl time_error"
proof (cases "matches DATE_RE start_date \<and> matches TIME_RE start_time")
  case True
  with assms have e: "\<not> matches DATE_RE end_date \<or> \<not> matches TIME_RE end_time" by blast
  from True have "\<exists>parts. date_time_to_query_parts start_date start_time = Inr parts"
    by (simp add: query_parts_valid)
  then show ?thesis
    using query_parts_invalid[OF e]
    by (auto simp: build_query_def Let_def split: prod.splits)
next
  case False
  then have "\<not> matches DATE_RE start_date \<or> \<not> matches TIME_RE start_time" by blast
  from query_parts_invalid[OF this] show ?thesis
    by (auto simp: build_query_def Let_def)
qed

section \<open>Format D\<close>

lemma takeWhile_holds: "j < length (takeWhile P xs) \<Longrightarrow> P (xs ! j)"
  by (metis nth_mem set_takeWhileD takeWhile_nth)

lemma rmatch_consumes:
  "e \<in> set (rmatch r s i) \<Longrightarrow> i \<le> length s \<Longrightarrow>
   i \<le> e \<and> e \<le> length s \<and> (\<forall>k. i \<le> k \<and> k < e \<longrightarrow> consumes r (s ! k))"
proof (induction r arbitrary: i e)
  case (Cls k)
  then show ?case by (auto split: if_splits simp: less_Suc_eq)
next
  case (Times n k)
  then have a: "e = i + n" "i + n \<le> length s" "list_all (in_class k) (take n (drop i s))"
    by (auto split: if_splits)
  have "\<forall>j. i \<le> j \<and> j < e \<longrightarrow> in_class k (s ! j)"
  proof (intro allI impI)
    fix j assume j: "i \<le> j \<and> j < e"
    then have "j - i < n" using a by arith
    then have "j - i < length (take n (drop i s))" using a by simp
    with a(3) have "in_class k (take n (drop i s) ! (j - i))"
      by (simp add: list_all_length)
    moreover have "take n (drop i s) ! (j - i) = s ! (i + (j - i))"
      using \<open>j - i < n\<close> a(2) by simp
    moreover have "i + (j - i) = j" using j by arith
    ultimately show "in_class k (s ! j)" by simp
  qed
  with a show ?case by simp
next
  case (Plus k)
  let ?m = "length (takeWhile (in_class k) (drop i s))"
  from Plus obtain j where j: "e = i + j" "1 \<le> j" "j \<le> ?m" by auto
  have le: "?m \<le> length (drop i s)" by (rule length_takeWhile_le)
  have "\<forall>p. i \<le> p \<and> p < e \<longrightarrow> in_class k (s ! p)"
  proof (intro allI impI)
    fix p assume p: "i \<le> p \<and> p < e"
    with j have pm: "p - i < ?m" by arith
    then have "in_class k (drop i s ! (p - i))" by (rule takeWhile_holds)
    moreover have "i + (p - i) \<le> length s" using pm le by simp
    then have "drop i s ! (p - i) = s ! (i + (p - i))" by simp
    moreover have "i + (p - i) = p" using p by arith
    ultimately show "in_class k (s ! p)" by simp
  qed
  with j le show ?case by simp
next
  case (Opt r)
  then show ?case by auto
next
  case (Seq r1 r2)
  from Seq.prems obtain m where m: "m \<in> set (rmatch r1 s i)" "e \<in> set (rmatch r2 s m)"
    by auto
  from Seq.IH(1)[OF m(1) Seq.prems(2)]
  have a: "i \<le> m" "m \<le> length s" "\<forall>k. i \<le> k \<and> k < m \<longrightarrow> consumes r1 (s ! k)"
    by simp_all
  from Seq.IH(2)[OF m(2) a(2)]
  have b: "m \<le> e" "e \<le> length s" "\<forall>k. m \<le> k \<and> k < e \<longrightarrow> consumes r2 (s ! k)"
    by simp_all
  have "\<forall>k. i \<le> k \<and> k < e \<longrightarrow> consumes (Seq r1 r2) (s ! k)"
  proof (intro allI impI)
    fix k assume k: "i \<le> k \<and> k < e"
    show "consumes (Seq r1 r2) (s ! k)"
    proof (cases "k < m")
      case True
      with k a(3) show ?thesis by simp
    next
      case False
      then have "m \<le> k" by simp
      with k b(3) show ?thesis by simp
    qed
  qed
  with a b show ?case by simp
qed (auto split: if_splits)

lemma rmatch_seq_Eol:
  "e \<in> set (rmatch (seq (rs @ [Eol])) s i) \<Longrightarrow>
   e = length s \<or> (Suc e = length s \<and> s ! e = 10)"
  by (induction rs arbitrary: i) (auto simp: seq_def split: if_splits)

lemma NUM_RE_chars:
  assumes "rmatch NUM_RE s i \<noteq> []" and "k < length s"
  shows "s ! k \<noteq> 58"
proof -
  from assms(1) obtain e where e: "e \<in> set (rmatch NUM_RE s i)"
    by (cases "rmatch NUM_RE s i") auto
  have "NUM_RE = seq ([Bol, Opt (any_of ''+-''), Plus Digit,
                 Opt (seq [chr CHR ''.'', Plus Digit]),
                 Opt (seq [any_of ''eE'', Opt (any_of ''+-''), Plus Digit])] @ [Eol])"
    by (simp add: NUM_RE_def)
  with e rmatch_seq_Eol have fin: "e = length s \<or> (Suc e = length s \<and> s ! e = 10)"
    by metis
  from e have i0: "i = 0"
    by (auto simp: NUM_RE_def seq_def split: if_splits)
  from rmatch_consumes[OF e] i0 have c: "\<forall>k. k < e \<longrightarrow> consumes NUM_RE (s ! k)" by simp
  have nc: "\<not> consumes NUM_RE 58"
    by (simp add: NUM_RE_def seq_def chr_def any_of_def ustr_def ord_def isdecimal_def
          decimal_zeros_def)
  show ?thesis
  proof (cases "k < e")
    case True
    with c nc show ?thesis by metis
  next
    case False
    with fin assms(2) have "k = e \<and> s ! e = 10" by auto
    then show ?thesis by simp
  qed
qed

lemma rmatch_Seq_Times:
  "rmatch (Seq (Times n k) r) s i =
     (if i + n \<le> length s \<and> list_all (in_class k) (take n (drop i s)) then rmatch r s (i + n)
      else [])"
  by auto

lemma rmatch_Seq_Cls:
  "rmatch (Seq (Cls k) r) s i =
     (if i < length s \<and> in_class k (s ! i) then rmatch r s (Suc i) else [])"
  by auto

lemma DATETIME_RE_colon:
  "rmatch DATETIME_RE s i \<noteq> [] \<Longrightarrow> 13 + i < length s \<and> s ! (13 + i) = 58"
  by (simp add: DATETIME_RE_def seq_def chr_def any_of_def ord_def rmatch_Seq_Times
        rmatch_Seq_Cls add.commute del: rmatch.simps split: if_splits)

lemma search_at_Some: "search_at r s is = Some sp \<Longrightarrow> \<exists>i. rmatch r s i \<noteq> []"
proof (induction "is")
  case Nil
  then show ?case by simp
next
  case (Cons a "is")
  show ?case
  proof (cases "rmatch r s a")
    case Nil
    with Cons show ?thesis by simp
  next
    case (Cons x xs)
    then have "rmatch r s a \<noteq> []" by simp
    then show ?thesis by blast
  qed
qed

lemma re_search_Some: "re_search r s = Some sp \<Longrightarrow> \<exists>i. rmatch r s i \<noteq> []"
  unfolding re_search_def by (rule search_at_Some)

lemma format_D_dead: "format_D tokens = None"
proof -
  let ?j = "str_join (ustr '' '') tokens"
  have "\<not> (re_search DATETIME_RE ?j \<noteq> None \<and> re_search NUM_RE ?j \<noteq> None)"
  proof
    assume a: "re_search DATETIME_RE ?j \<noteq> None \<and> re_search NUM_RE ?j \<noteq> None"
    then obtain i where i: "rmatch DATETIME_RE ?j i \<noteq> []" using re_search_Some by blast
    from a obtain n where n: "rmatch NUM_RE ?j n \<noteq> []" using re_search_Some by blast
    from DATETIME_RE_colon[OF i] NUM_RE_chars[OF n] show False by blast
  qed
  then show ?thesis
    by (auto simp: format_D_def Let_def split: option.splits)
qed


text \<open>
  C2. Format D joins the tokens and searches the joined string for a datetime and,
  with \<^verbatim>\<open>NUM_RE.search\<close>, for a number. \<^verbatim>\<open>NUM_RE\<close> is anchored at both ends, so its search
  succeeds only when the whole string is a number, and such a string holds no colon,
  which every datetime has: the two searches never succeed together and Format D
  yields no row, for any tokens. The line below holds a datetime and a number among
  other text; searching for a numeric substring, as the specification says, gives the
  row, and the parser skips the line.
\<close>

theorem format_D_never_matches:
  "format_D tokens = None \<and>
   parse_line (ustr ''count=12345.6 at 2025-07-29T00:05 UTC'') = Inr None \<and>
   format_D_spec (str_split (str_strip (ustr ''count=12345.6 at 2025-07-29T00:05 UTC''))) =
     Some (ustr ''2025-07-29 00:05'', ustr ''12345.6'')"
proof -
  let ?ln = "ustr ''count=12345.6 at 2025-07-29T00:05 UTC''"
  let ?tokens = "[ustr ''count=12345.6'', ustr ''at'', ustr ''2025-07-29T00:05'', ustr ''UTC'']"
  have tk: "?tokens = str_split (str_strip ?ln)"
    by (simp add: str_eval)
  have a: "str_strip ?ln \<noteq> []"
    by (simp add: str_eval)
  have b: "\<not> str_startswith (str_strip ?ln) (ustr ''#'')"
    by (simp add: str_eval)
  have d: "\<not> matches DATE_RE (ustr ''count=12345.6'')"
    by (simp add: re_eval str_eval)
  have n: "\<not> matches NUM_RE (ustr ''UTC'')"
    by (simp add: re_eval str_eval)
  have "parse_line ?ln = parse_tokens ?tokens"
    using a b tk by (simp add: parse_line_def Let_def)
  also have "\<dots> = Inr (first_match [format_A, format_B, format_C, format_D] ?tokens)"
    by (rule parse_tokens_first_match) simp
  also have "\<dots> = Inr None"
    using d n by (simp add: format_A_def format_B_def format_C_def format_D_dead)
  finally have p: "parse_line ?ln = Inr None" .
  have j: "str_join (ustr '' '') ?tokens = ustr ''count=12345.6 at 2025-07-29T00:05 UTC''"
    by (simp add: ustr_def)
  have m: "re_search DATETIME_RE (ustr ''count=12345.6 at 2025-07-29T00:05 UTC'') = Some (17, 33)"
    by (simp add: re_eval str_eval)
  have k: "re_search NUM_BODY_RE (ustr ''count=12345.6 at 2025-07-29T00:05 UTC'') = Some (6, 13)"
    by (simp add: re_eval NUM_BODY_RE_def str_eval)
  have "format_D_spec ?tokens = Some (ustr ''2025-07-29 00:05'', ustr ''12345.6'')"
    unfolding format_D_spec_def j Let_def m k
    by (simp add: group0_def str_eval)
  with p tk format_D_dead show ?thesis by simp
qed

section \<open>Skipped lines\<close>

lemma is_linebreak_LF: "is_linebreak 10"
  by (simp add: is_linebreak_def)

lemma is_linebreak_CR: "is_linebreak 13"
  by (simp add: is_linebreak_def)

lemma splitlines_from_LF: "splitlines_from cur (10 # y) = cur # splitlines_from [] y"
  by (cases y) (simp_all add: is_linebreak_LF)

lemma splitlines_from_append_LF:
  "splitlines_from cur (x @ 10 # y) = splitlines_from cur (x @ [10]) @ splitlines_from [] y"
proof (induction cur x rule: splitlines_from.induct)
  case (1 cur)
  show ?case by (simp add: splitlines_from_LF is_linebreak_LF)
next
  case (2 cur c)
  show ?case by (simp add: splitlines_from_LF is_linebreak_LF)
next
  case (3 cur c d cs)
  then show ?case by simp
qed

lemma splitlines_from_line:
  "\<forall>c\<in>set ln. \<not> is_linebreak c \<Longrightarrow> splitlines_from cur (ln @ [10]) = [cur @ ln]"
proof (induction cur ln rule: splitlines_from.induct)
  case (1 cur)
  show ?case by (simp add: is_linebreak_LF)
next
  case (2 cur c)
  then have "\<not> is_linebreak c" by simp
  moreover from this have "c \<noteq> 13" using is_linebreak_CR by metis
  ultimately show ?case by (simp add: is_linebreak_LF)
next
  case (3 cur c d cs)
  then have n: "\<not> is_linebreak c" "\<forall>x\<in>set (d # cs). \<not> is_linebreak x" by simp_all
  from n(1) have "c \<noteq> 13" using is_linebreak_CR by metis
  with n 3 show ?case by simp
qed

lemma str_splitlines_insert_line:
  assumes "a = [] \<or> last a = 10" and "\<forall>c\<in>set ln. \<not> is_linebreak c"
  shows "str_splitlines (a @ ln @ [10] @ b) = str_splitlines a @ [ln] @ str_splitlines b \<and>
         str_splitlines (a @ b) = str_splitlines a @ str_splitlines b"
proof (cases "a = []")
  case True
  have "splitlines_from [] (ln @ 10 # b) = splitlines_from [] (ln @ [10]) @ splitlines_from [] b"
    by (rule splitlines_from_append_LF)
  with True show ?thesis
    using splitlines_from_line[OF assms(2), of "[]"] by (simp add: str_splitlines_def)
next
  case False
  with assms(1) obtain a' where a: "a = a' @ [10]"
    by (metis append_butlast_last_id)
  have 1: "splitlines_from [] (a' @ 10 # (ln @ 10 # b)) =
           splitlines_from [] (a' @ [10]) @ splitlines_from [] (ln @ 10 # b)"
    by (rule splitlines_from_append_LF)
  have 2: "splitlines_from [] (ln @ 10 # b) = splitlines_from [] (ln @ [10]) @ splitlines_from [] b"
    by (rule splitlines_from_append_LF)
  have 3: "splitlines_from [] (a' @ 10 # b) = splitlines_from [] (a' @ [10]) @ splitlines_from [] b"
    by (rule splitlines_from_append_LF)
  from 1 2 3 a show ?thesis
    using splitlines_from_line[OF assms(2), of "[]"] by (simp add: str_splitlines_def)
qed

lemma parse_lines_skip:
  "parse_line ln = Inr None \<Longrightarrow> parse_lines (xs @ ln # ys) = parse_lines (xs @ ys)"
  by (induction xs) (auto split: sum.splits option.splits)

lemma parse_line_skipped:
  assumes "str_strip ln = [] \<or> str_startswith (str_strip ln) (ustr ''#'') \<or>
           first_match [format_A, format_B, format_C, format_D] (str_split (str_strip ln)) = None"
  shows "parse_line ln = Inr None"
proof (cases "str_strip ln = [] \<or> str_startswith (str_strip ln) (ustr ''#'')")
  case True
  then show ?thesis by (auto simp: parse_line_def Let_def)
next
  case False
  with assms have n: "first_match [format_A, format_B, format_C, format_D]
                        (str_split (str_strip ln)) = None" by blast
  from False have ne: "str_split (str_strip ln) \<noteq> []"
    by (simp add: str_split_strip_nonempty)
  from False have "parse_line ln = parse_tokens (str_split (str_strip ln))"
    by (simp add: parse_line_def Let_def)
  with parse_tokens_first_match[OF ne] n show ?thesis by simp
qed

text \<open>
  C8. A blank line, a comment line and a line that none of the four formats matches
  are skipped: the parser raises nothing and appends no row. The rows of the lines
  are the same with and without such a line, and so is the table of a text with and
  without it.
\<close>

theorem skipped_lines_contribute_nothing:
  assumes "str_strip ln = [] \<or> str_startswith (str_strip ln) (ustr ''#'') \<or>
           first_match [format_A, format_B, format_C, format_D] (str_split (str_strip ln)) = None"
  shows "parse_line ln = Inr None \<and>
         parse_lines (before @ ln # after) = parse_lines (before @ after) \<and>
         ((a = [] \<or> last a = 10) \<and> (\<forall>c\<in>set ln. \<not> is_linebreak c) \<longrightarrow>
            parse_ascii lib (a @ ln @ [10] @ b) = parse_ascii lib (a @ b))"
proof -
  have p: "parse_line ln = Inr None" by (rule parse_line_skipped[OF assms])
  have "parse_ascii lib (a @ ln @ [10] @ b) = parse_ascii lib (a @ b)"
    if h: "(a = [] \<or> last a = 10) \<and> (\<forall>c\<in>set ln. \<not> is_linebreak c)"
  proof -
    from h str_splitlines_insert_line[of a ln b]
    have "str_splitlines (a @ ln @ [10] @ b) = str_splitlines a @ ln # str_splitlines b"
      and "str_splitlines (a @ b) = str_splitlines a @ str_splitlines b"
      by simp_all
    then show ?thesis
      using parse_lines_skip[OF p] by (simp add: parse_ascii_def)
  qed
  with p parse_lines_skip[OF p] show ?thesis by blast
qed


theorem skipped_lines_contribute_nothing_witness:
  "parse_line (ustr ''no data here'') = Inr None \<and>
   parse_lines [ustr ''2025-07-29 99.9'', ustr ''no data here''] =
     parse_lines [ustr ''2025-07-29 99.9''] \<and>
   parse_line (ustr '' # OULU'') = Inr None \<and> parse_line (ustr ''   '') = Inr None"
proof -
  let ?tokens = "[ustr ''no'', ustr ''data'', ustr ''here'']"
  have tk: "str_split (str_strip (ustr ''no data here'')) = ?tokens"
    by (simp add: str_eval)
  have d: "\<not> matches DATE_RE (ustr ''no'')"
    by (simp add: re_eval str_eval)
  have n: "\<not> matches NUM_RE (ustr ''here'')"
    by (simp add: re_eval str_eval)
  have "first_match [format_A, format_B, format_C, format_D] ?tokens = None"
    using d n by (simp add: format_A_def format_B_def format_C_def format_D_dead)
  with tk have h1: "str_strip (ustr ''no data here'') = [] \<or>
      str_startswith (str_strip (ustr ''no data here'')) (ustr ''#'') \<or>
      first_match [format_A, format_B, format_C, format_D]
        (str_split (str_strip (ustr ''no data here''))) = None"
    by simp
  have "str_startswith (str_strip (ustr '' # OULU'')) (ustr ''#'')"
    by (simp add: str_eval)
  then have h2: "str_strip (ustr '' # OULU'') = [] \<or>
      str_startswith (str_strip (ustr '' # OULU'')) (ustr ''#'') \<or>
      first_match [format_A, format_B, format_C, format_D]
        (str_split (str_strip (ustr '' # OULU''))) = None"
    by blast
  have "str_strip (ustr ''   '') = []"
    by (simp add: str_eval)
  then have h3: "str_strip (ustr ''   '') = [] \<or>
      str_startswith (str_strip (ustr ''   '')) (ustr ''#'') \<or>
      first_match [format_A, format_B, format_C, format_D]
        (str_split (str_strip (ustr ''   ''))) = None"
    by blast
  from skipped_lines_contribute_nothing [OF h1, of "[ustr ''2025-07-29 99.9'']" "[]"]
  have "parse_line (ustr ''no data here'') = Inr None \<and>
        parse_lines ([ustr ''2025-07-29 99.9''] @ [ustr ''no data here'']) =
          parse_lines ([ustr ''2025-07-29 99.9''] @ [])"
    by blast
  then have "parse_line (ustr ''no data here'') = Inr None \<and>
        parse_lines [ustr ''2025-07-29 99.9'', ustr ''no data here''] =
          parse_lines [ustr ''2025-07-29 99.9'']"
    by (simp only: append_Cons append_Nil append_Nil2)
  moreover from skipped_lines_contribute_nothing [OF h2]
  have "parse_line (ustr '' # OULU'') = Inr None" by blast
  moreover from skipped_lines_contribute_nothing [OF h3]
  have "parse_line (ustr ''   '') = Inr None" by blast
  ultimately show ?thesis by blast
qed

section \<open>The rebuilt query\<close>

lemma items_Nil: "items [] = []"
  by (simp add: items_def)

lemma items_Cons: "items ((k, vs) # d) = map (Pair k) vs @ items d"
  by (simp add: items_def)

lemma items_append: "items (d @ e) = items d @ items e"
  by (simp add: items_def)

lemma items_map_append:
  "set (items (map (\<lambda>(a, vs). if a = k then (a, vs @ [v]) else (a, vs)) d)) =
     set (items d) \<union> (if k \<in> fst ` set d then {(k, v)} else {})"
proof (induction d)
  case Nil
  show ?case by (simp add: items_Nil)
next
  case (Cons e d)
  obtain a b where e: "e = (a, b)" by (cases e)
  show ?case
  proof (cases "a = k")
    case True
    with Cons e show ?thesis
      by (cases "k \<in> fst ` set d") (auto simp: items_Cons)
  next
    case False
    with Cons e show ?thesis
      by (cases "k \<in> fst ` set d") (auto simp: items_Cons)
  qed
qed

lemma items_dict_append: "set (items (dict_append d k v)) = insert (k, v) (set (items d))"
  by (auto simp: dict_append_def items_map_append items_append items_Cons items_Nil)

lemma items_map_set:
  "set (items (map (\<lambda>(a, ws). if a = k then (a, vs) else (a, ws)) d)) =
     {kv \<in> set (items d). fst kv \<noteq> k} \<union> (if k \<in> fst ` set d then Pair k ` set vs else {})"
proof (induction d)
  case Nil
  show ?case by (simp add: items_Nil)
next
  case (Cons e d)
  obtain a b where e: "e = (a, b)" by (cases e)
  show ?case
  proof (cases "a = k")
    case True
    with Cons e show ?thesis
      by (cases "k \<in> fst ` set d") (auto simp: items_Cons)
  next
    case False
    with Cons e show ?thesis
      by (cases "k \<in> fst ` set d") (auto simp: items_Cons)
  qed
qed

lemma items_in_keys: "(a, b) \<in> set (items d) \<Longrightarrow> a \<in> fst ` set d"
  by (induction d) (auto simp: items_Nil items_Cons)

lemma items_dict_set:
  "set (items (dict_set d k vs)) = {kv \<in> set (items d). fst kv \<noteq> k} \<union> Pair k ` set vs"
proof (cases "k \<in> fst ` set d")
  case True
  then show ?thesis by (simp add: dict_set_def items_map_set)
next
  case False
  then have "{kv \<in> set (items d). fst kv \<noteq> k} = set (items d)"
    using items_in_keys by fastforce
  with False show ?thesis
    by (auto simp: dict_set_def items_append items_Cons items_Nil)
qed

lemma items_foldl_append:
  "set (items (foldl (\<lambda>d (name, val). dict_append d name val) d ps)) = set (items d) \<union> set ps"
  by (induction ps arbitrary: d) (auto simp: items_dict_append)

lemma items_parse_qs: "set (items (parse_qs q)) = set (parse_qsl q)"
  by (simp add: parse_qs_def items_foldl_append items_Nil)

lemma items_foldl_set:
  "distinct (map fst kvs) \<Longrightarrow>
   set (items (foldl (\<lambda>d (k, v). dict_set d k [v]) d kvs)) =
     set kvs \<union> {kv \<in> set (items d). fst kv \<notin> fst ` set kvs}"
proof (induction kvs arbitrary: d)
  case Nil
  show ?case by simp
next
  case (Cons kv kvs)
  obtain k v where kv: "kv = (k, v)" by (cases kv)
  from Cons.prems kv have d: "distinct (map fst kvs)" and nk: "k \<notin> fst ` set kvs" by auto
  from nk have nk': "\<forall>b. (k, b) \<notin> set kvs" by force
  have "set (items (foldl (\<lambda>d (k, v). dict_set d k [v]) d (kv # kvs))) =
        set kvs \<union> {x \<in> set (items (dict_set d k [v])). fst x \<notin> fst ` set kvs}"
    using Cons.IH[OF d] kv by simp
  also have "\<dots> = set (kv # kvs) \<union> {x \<in> set (items d). fst x \<notin> fst ` set (kv # kvs)}"
    using nk nk' kv by (auto simp: items_dict_set)
  finally show ?case .
qed


lemma encode_values_Inr:
  "encode_values k vs = Inr l \<Longrightarrow> l = map (\<lambda>v. k @ ustr ''='' @ quoted v) vs"
  by (induction vs arbitrary: l) (auto simp: quoted_def split: sum.splits)

lemma encode_items_Inr: "encode_items d = Inr l \<Longrightarrow> l = map param (items d)"
proof (induction d arbitrary: l)
  case Nil
  then show ?case by (simp add: items_Nil)
next
  case (Cons e d)
  obtain k vs where e: "e = (k, vs)" by (cases e)
  from Cons.prems e obtain k' l1 l2 where
    k': "quote_plus k = Inr k'" and l1: "encode_values k' vs = Inr l1" and
    l2: "encode_items d = Inr l2" and l: "l = l1 @ l2"
    by (auto split: sum.splits)
  from k' have "quoted k = k'" by (simp add: quoted_def)
  with encode_values_Inr[OF l1] have "l1 = map param (map (Pair k) vs)"
    by (simp add: param_def)
  with Cons.IH[OF l2] l e show ?case by (simp add: items_Cons)
qed

lemma split_on_from_no_sep: "sep \<notin> set x \<Longrightarrow> split_on_from sep cur x = [cur @ x]"
  by (induction x arbitrary: cur) auto

lemma split_on_from_sep:
  "sep \<notin> set x \<Longrightarrow>
   split_on_from sep cur (x @ sep # rest) = (cur @ x) # split_on_from sep [] rest"
  by (induction x arbitrary: cur) auto

lemma split_join:
  "l \<noteq> [] \<Longrightarrow> \<forall>x\<in>set l. sep \<notin> set x \<Longrightarrow> str_split_on sep (str_join [sep] l) = l"
proof (induction "[sep]" l rule: str_join.induct)
  case 1
  then show ?case by simp
next
  case (2 x)
  then show ?case by (simp add: str_split_on_def split_on_from_no_sep)
next
  case (3 x y ys)
  then have "str_split_on sep (str_join [sep] (y # ys)) = y # ys" by simp
  with 3 show ?case
    by (simp add: str_split_on_def split_on_from_sep)
qed

lemma hexdigit_not_sep: "hexdigit n \<noteq> 38 \<and> hexdigit n \<noteq> 61"
  by (simp add: hexdigit_def)

lemma quote_byte_chars:
  "safe = [] \<or> safe = [32] \<Longrightarrow> c \<in> set (quote_byte safe b) \<Longrightarrow> c \<noteq> 38 \<and> c \<noteq> 61"
  using hexdigit_not_sep
  by (auto simp: quote_byte_def always_safe_def ustr_def ord_def split: if_splits)

lemma quote_chars:
  "safe = [] \<or> safe = [32] \<Longrightarrow> quote safe s = Inr q \<Longrightarrow> c \<in> set q \<Longrightarrow> c \<noteq> 38 \<and> c \<noteq> 61"
proof -
  assume sf: "safe = [] \<or> safe = [32]" and q: "quote safe s = Inr q" and c: "c \<in> set q"
  from q obtain bs where "q = concat (map (quote_byte safe) bs)"
    by (auto simp: quote_def split: sum.splits)
  with c obtain b where "c \<in> set (quote_byte safe b)" by auto
  with sf show ?thesis by (rule quote_byte_chars)
qed

lemma quote_plus_chars: "quote_plus s = Inr q \<Longrightarrow> c \<in> set q \<Longrightarrow> c \<noteq> 38 \<and> c \<noteq> 61"
proof -
  assume a: "quote_plus s = Inr q" and c: "c \<in> set q"
  show ?thesis
  proof (cases "ord CHR '' '' \<in> set s")
    case False
    with a have "quote [] s = Inr q" by (simp add: quote_plus_def)
    from quote_chars[OF _ this c] show ?thesis by simp
  next
    case True
    with a obtain q' where q': "quote (ustr '' '') s = Inr q'"
      and q: "q = str_replace (ord CHR '' '') (ord CHR ''+'') q'"
      by (auto simp: quote_plus_def split: sum.splits)
    from c q obtain c' where c': "c' \<in> set q'" "c = (if c' = 32 then 43 else c')"
      by (auto simp: str_replace_def ord_def)
    have "ustr '' '' = [] \<or> ustr '' '' = [32]" by (simp add: ustr_def ord_def)
    from quote_chars[OF this q' c'(1)] c'(2) show ?thesis by auto
  qed
qed

lemma param_no_amp: "38 \<notin> set (param kv)"
proof -
  have "c \<noteq> 38" if c: "c \<in> set (quoted s)" for c s
  proof (cases "quote_plus s")
    case (Inl e)
    with c show ?thesis by (simp add: quoted_def)
  next
    case (Inr q)
    with c have "c \<in> set q" by (simp add: quoted_def)
    with quote_plus_chars[OF Inr] show ?thesis by blast
  qed
  then have "38 \<notin> set (quoted s)" for s by blast
  then show ?thesis by (simp add: param_def ustr_def ord_def)
qed

lemma urlencode_segments:
  assumes "urlencode d = Inr out" and "items d \<noteq> []"
  shows "str_split_on 38 out = map param (items d)"
proof -
  from assms(1) obtain l where l: "encode_items d = Inr l" and
    out: "out = str_join (ustr ''&'') l"
    by (auto simp: urlencode_def split: sum.splits)
  from encode_items_Inr[OF l] have l': "l = map param (items d)" .
  have amp: "ustr ''&'' = [38]" by (simp add: ustr_def ord_def)
  from l' assms(2) have "l \<noteq> []" by simp
  moreover from l' have "\<forall>x\<in>set l. 38 \<notin> set x" using param_no_amp by auto
  ultimately have "str_split_on 38 (str_join [38] l) = l" by (rule split_join)
  with out amp l' show ?thesis by simp
qed

lemma distinct_overwritten: "distinct overwritten"
  by (simp add: overwritten_def ustr_def ord_def)

lemma length_overwritten: "length overwritten = 11"
  by (simp add: overwritten_def)

lemma build_query_Inr:
  assumes "build_query q sd st ed et = Inr out"
  shows "\<exists>s1 s2 s3 s4 s5 e1 e2 e3 e4 e5.
           date_time_to_query_parts sd st = Inr (s1, s2, s3, s4, s5) \<and>
           date_time_to_query_parts ed et = Inr (e1, e2, e3, e4, e5) \<and>
           urlencode (foldl (\<lambda>d (k, v). dict_set d k [v]) (parse_qs q)
             (zip overwritten [s1, s2, s3, s4, s5, e1, e2, e3, e4, e5, ustr ''ascii''])) = Inr out"
  using assms
  by (auto simp: build_query_def overwritten_def Let_def split: sum.splits)

lemma build_query_segments:
  assumes "build_query q sd st ed et = Inr out"
  shows "\<exists>s1 s2 s3 s4 s5 e1 e2 e3 e4 e5.
           date_time_to_query_parts sd st = Inr (s1, s2, s3, s4, s5) \<and>
           date_time_to_query_parts ed et = Inr (e1, e2, e3, e4, e5) \<and>
           set (str_split_on (ord CHR ''&'') out) =
             param ` (set (zip overwritten
                             [s1, s2, s3, s4, s5, e1, e2, e3, e4, e5, ustr ''ascii'']) \<union>
                      {kv \<in> set (parse_qsl q). fst kv \<notin> set overwritten})"
proof -
  from build_query_Inr[OF assms] obtain s1 s2 s3 s4 s5 e1 e2 e3 e4 e5 where
    p1: "date_time_to_query_parts sd st = Inr (s1, s2, s3, s4, s5)" and
    p2: "date_time_to_query_parts ed et = Inr (e1, e2, e3, e4, e5)" and
    u: "urlencode (foldl (\<lambda>d (k, v). dict_set d k [v]) (parse_qs q)
          (zip overwritten [s1, s2, s3, s4, s5, e1, e2, e3, e4, e5, ustr ''ascii''])) = Inr out"
    by blast
  let ?vals = "[s1, s2, s3, s4, s5, e1, e2, e3, e4, e5, ustr ''ascii'']"
  let ?kvs = "zip overwritten ?vals"
  let ?d = "foldl (\<lambda>d (k, v). dict_set d k [v]) (parse_qs q) ?kvs"
  have len: "length overwritten = length ?vals" by (simp add: length_overwritten)
  then have fk: "map fst ?kvs = overwritten" by (rule map_fst_zip)
  then have dk: "distinct (map fst ?kvs)" by (simp add: distinct_overwritten)
  have keys: "fst ` set ?kvs = set overwritten"
    using fk by (metis list.set_map)
  from items_foldl_set[OF dk, of "parse_qs q"]
  have it: "set (items ?d) = set ?kvs \<union> {kv \<in> set (parse_qsl q). fst kv \<notin> set overwritten}"
    by (simp only: keys items_parse_qs)
  have "set ?kvs \<noteq> {}" by (simp add: overwritten_def)
  with it have ne: "items ?d \<noteq> []" by auto
  from urlencode_segments[OF u ne] it
  have "set (str_split_on (ord CHR ''&'') out) =
          param ` (set ?kvs \<union> {kv \<in> set (parse_qsl q). fst kv \<notin> set overwritten})"
    by (simp add: ord_def)
  with p1 p2 show ?thesis by blast
qed

lemma always_safe_ascii:
  "always_safe c \<Longrightarrow> c < 128 \<and> c \<noteq> 32 \<and> c \<noteq> 37 \<and> c \<noteq> 43 \<and> c \<noteq> 61 \<and> c \<noteq> 38"
  by (auto simp: always_safe_def ustr_def ord_def)

lemma utf8_encode_ascii: "\<forall>c\<in>set s. c < 128 \<Longrightarrow> utf8_encode s = Inr s"
  by (induction s) (auto simp: utf8_encode_char_def)

lemma quote_safe: "list_all always_safe s \<Longrightarrow> quote [] s = Inr s"
proof -
  assume a: "list_all always_safe s"
  then have "\<forall>c\<in>set s. c < 128" using always_safe_ascii by (auto simp: list_all_iff)
  then have e: "utf8_encode s = Inr s" by (rule utf8_encode_ascii)
  from a have "concat (map (quote_byte []) s) = s"
    by (induction s) (auto simp: quote_byte_def)
  with e show ?thesis by (simp add: quote_def)
qed

lemma quote_plus_safe: "list_all always_safe s \<Longrightarrow> quote_plus s = Inr s"
proof -
  assume a: "list_all always_safe s"
  then have "32 \<notin> set s" using always_safe_ascii by (auto simp: list_all_iff)
  with quote_safe[OF a] show ?thesis by (simp add: quote_plus_def ord_def)
qed

lemma unquote_plus_safe: "list_all always_safe s \<Longrightarrow> unquote_plus s = s"
proof -
  assume a: "list_all always_safe s"
  then have n: "43 \<notin> set s" "37 \<notin> set s" using always_safe_ascii by (auto simp: list_all_iff)
  from n(1) have "str_replace 43 32 s = s"
    by (induction s) (auto simp: str_replace_def)
  with n(2) show ?thesis by (simp add: unquote_plus_def unquote_def ord_def)
qed

lemma partition_eq_field: "61 \<notin> set n \<Longrightarrow> partition_eq (n @ ustr ''='' @ v) = (n, v)"
  by (induction n) (auto simp: partition_eq_def ustr_def ord_def)

lemma plain_field_parsed:
  assumes "list_all always_safe n" and "list_all always_safe v" and "v \<noteq> []"
    and "n @ ustr ''='' @ v \<in> set (str_split_on (ord CHR ''&'') q)"
  shows "(n, v) \<in> set (parse_qsl q)"
proof -
  let ?f = "n @ ustr ''='' @ v"
  have ne: "?f \<noteq> []" by (simp add: ustr_def)
  have "q \<noteq> []"
  proof
    assume "q = []"
    with assms(4) have "?f = []" by (simp add: str_split_on_def)
    with ne show False by simp
  qed
  moreover have "61 \<notin> set n" using assms(1) always_safe_ascii by (auto simp: list_all_iff)
  then have "parse_field ?f = Some (n, v)"
    using ne assms(3) unquote_plus_safe[OF assms(1)] unquote_plus_safe[OF assms(2)]
    by (simp add: parse_field_def partition_eq_field)
  ultimately show ?thesis
    using assms(4) by (force simp: parse_qsl_def List.map_filter_def)
qed

lemma param_plain:
  "list_all always_safe n \<Longrightarrow> list_all always_safe v \<Longrightarrow> param (n, v) = n @ ustr ''='' @ v"
  by (simp add: param_def quoted_def quote_plus_safe)

lemma build_query_keeps:
  assumes "build_query q sd st ed et = Inr out" and "kv \<in> set (parse_qsl q)"
    and "fst kv \<notin> set overwritten"
  shows "param kv \<in> set (str_split_on (ord CHR ''&'') out)"
proof -
  from assms(2,3) have m: "kv \<in> {kv \<in> set (parse_qsl q). fst kv \<notin> set overwritten}" by simp
  from build_query_segments[OF assms(1)] obtain X where
    "set (str_split_on (ord CHR ''&'') out) =
       param ` (X \<union> {kv \<in> set (parse_qsl q). fst kv \<notin> set overwritten})"
    by (elim exE conjE) (rule that)
  with m show ?thesis by (simp add: image_Un)
qed


text \<open>
  C3, as amended. The parameters of the rebuilt query are exactly these: the eleven
  parameters the builder sets, each with its new value, and every other parameter of
  the base query that has a non-empty value, with its decoded name and value quoted
  again by \<^verbatim>\<open>quote_plus\<close>. A parameter whose name and value consist of letters, digits
  and \<^verbatim>\<open>_.-~\<close> only is therefore found in the output as it stood in the base query.
\<close>

theorem query_rebuilt:
  assumes "build_query q sd st ed et = Inr out"
  shows "(\<exists>s1 s2 s3 s4 s5 e1 e2 e3 e4 e5.
           date_time_to_query_parts sd st = Inr (s1, s2, s3, s4, s5) \<and>
           date_time_to_query_parts ed et = Inr (e1, e2, e3, e4, e5) \<and>
           set (str_split_on (ord CHR ''&'') out) =
             param ` (set (zip overwritten
                             [s1, s2, s3, s4, s5, e1, e2, e3, e4, e5, ustr ''ascii'']) \<union>
                      {kv \<in> set (parse_qsl q). fst kv \<notin> set overwritten})) \<and>
         (\<forall>n v. list_all always_safe n \<and> list_all always_safe v \<and> v \<noteq> [] \<and>
                n \<notin> set overwritten \<and>
                n @ ustr ''='' @ v \<in> set (str_split_on (ord CHR ''&'') q) \<longrightarrow>
                n @ ustr ''='' @ v \<in> set (str_split_on (ord CHR ''&'') out))"
proof -
  have B: "\<forall>n v. list_all always_safe n \<and> list_all always_safe v \<and> v \<noteq> [] \<and>
                n \<notin> set overwritten \<and>
                n @ ustr ''='' @ v \<in> set (str_split_on (ord CHR ''&'') q) \<longrightarrow>
                n @ ustr ''='' @ v \<in> set (str_split_on (ord CHR ''&'') out)"
  proof (intro allI impI)
    fix n v
    assume h: "list_all always_safe n \<and> list_all always_safe v \<and> v \<noteq> [] \<and>
               n \<notin> set overwritten \<and>
               n @ ustr ''='' @ v \<in> set (str_split_on (ord CHR ''&'') q)"
    then have sn: "list_all always_safe n" and sv: "list_all always_safe v" and
      nv: "v \<noteq> []" and no: "n \<notin> set overwritten" and
      f: "n @ ustr ''='' @ v \<in> set (str_split_on (ord CHR ''&'') q)"
      by blast+
    from plain_field_parsed[OF sn sv nv f] have "(n, v) \<in> set (parse_qsl q)" .
    moreover from no have "fst (n, v) \<notin> set overwritten" by simp
    ultimately have "param (n, v) \<in> set (str_split_on (ord CHR ''&'') out)"
      by (rule build_query_keeps[OF assms])
    then show "n @ ustr ''='' @ v \<in> set (str_split_on (ord CHR ''&'') out)"
      by (simp only: param_plain[OF sn sv])
  qed
  from build_query_segments[OF assms] B show ?thesis by (rule conjI)
qed

lemma parts_start: "date_time_to_query_parts (ustr ''2025-07-29'') (ustr ''00:00'') =
              Inr (ustr ''29'', ustr ''7'', ustr ''2025'', ustr ''0'', ustr ''0'')"
proof -
  have d1: "matches DATE_RE (ustr ''2025-07-29'')" by (simp add: re_eval str_eval)
  have t1: "matches TIME_RE (ustr ''00:00'')" by (simp add: re_eval str_eval)
  show ?thesis
    by (simp add: query_parts_valid[OF d1 t1]) (simp add: ustr_def ord_def)
qed

lemma parts_end: "date_time_to_query_parts (ustr ''2025-08-29'') (ustr ''23:59'') =
              Inr (ustr ''29'', ustr ''8'', ustr ''2025'', ustr ''23'', ustr ''59'')"
proof -
  have d2: "matches DATE_RE (ustr ''2025-08-29'')" by (simp add: re_eval str_eval)
  have t2: "matches TIME_RE (ustr ''23:59'')" by (simp add: re_eval str_eval)
  show ?thesis
    by (simp add: query_parts_valid[OF d2 t2]) (simp add: ustr_def ord_def)
qed

lemma parse_qs_default:
  "parse_qs default_query =
     [(ustr ''formchk'', [ustr ''1'']), (ustr ''stations[]'', [ustr ''OULU'']),
      (ustr ''tabchoice'', [ustr ''revori'']), (ustr ''dtype'', [ustr ''corr_for_efficiency'']),
      (ustr ''tresolution'', [ustr ''5'']), (ustr ''yunits'', [ustr ''0'']),
      (ustr ''shift'', [ustr ''2'']), (ustr ''date_choice'', [ustr ''bydate'']),
      (ustr ''start_day'', [ustr ''29'']), (ustr ''start_month'', [ustr ''7'']),
      (ustr ''start_year'', [ustr ''2025'']), (ustr ''start_hour'', [ustr ''0'']),
      (ustr ''start_min'', [ustr ''0'']), (ustr ''end_day'', [ustr ''29'']),
      (ustr ''end_month'', [ustr ''8'']), (ustr ''end_year'', [ustr ''2025'']),
      (ustr ''end_hour'', [ustr ''23'']), (ustr ''end_min'', [ustr ''59'']),
      (ustr ''output'', [ustr ''plot'']), (ustr ''ygrid'', [ustr ''1'']),
      (ustr ''mline'', [ustr ''1'']), (ustr ''transp'', [ustr ''0'']),
      (ustr ''fontsize'', [ustr ''1'']), (ustr ''text_color'', [ustr ''222222'']),
      (ustr ''background_color'', [ustr ''FFFFFF'']), (ustr ''margin_color'', [ustr ''FFFFFF''])]"
  by (simp add: default_query_def url_eval str_eval)


lemma build_query_default:
  "build_query default_query (ustr ''2025-07-29'') (ustr ''00:00'') (ustr ''2025-08-29'') (ustr ''23:59'') =
     Inr rebuilt_default_query"
  unfolding build_query_def parts_start parts_end parse_qs_default Let_def
  by (simp add: rebuilt_default_query_def url_eval str_eval)

lemma default_url_query:
  "DEFAULT_URL = ustr ''https://www.nmdb.eu/nest/draw_graph.php?'' @ default_query"
  by (simp add: DEFAULT_URL_def default_query_def ustr_def)

text \<open>
  C3, as stated, fails on the default URL itself: its parameter \<^verbatim>\<open>stations[]=OULU\<close>
  comes out as \<^verbatim>\<open>stations%5B%5D=OULU\<close>.
\<close>

theorem query_not_byte_identical:
  "build_query default_query (ustr ''2025-07-29'') (ustr ''00:00'') (ustr ''2025-08-29'') (ustr ''23:59'') =
     Inr rebuilt_default_query \<and>
   ustr ''stations[]=OULU'' \<in> set (str_split_on (ord CHR ''&'') default_query) \<and>
   ustr ''stations[]=OULU'' \<notin> set (str_split_on (ord CHR ''&'') rebuilt_default_query)"
proof -
  have "ustr ''stations[]=OULU'' \<in> set (str_split_on (ord CHR ''&'') default_query) \<and>
        ustr ''stations[]=OULU'' \<notin> set (str_split_on (ord CHR ''&'') rebuilt_default_query)"
    by (simp add: default_query_def rebuilt_default_query_def str_eval)
  with build_query_default show ?thesis by simp
qed

theorem query_rebuilt_witness:
  "build_query default_query (ustr ''2025-07-29'') (ustr ''00:00'') (ustr ''2025-08-29'') (ustr ''23:59'') =
     Inr rebuilt_default_query \<and>
   ustr ''tabchoice=revori'' \<in> set (str_split_on (ord CHR ''&'') rebuilt_default_query)"
proof -
  have sn: "list_all always_safe (ustr ''tabchoice'')"
    by (simp add: always_safe_def ustr_def ord_def)
  have sv: "list_all always_safe (ustr ''revori'')"
    by (simp add: always_safe_def ustr_def ord_def)
  have nv: "ustr ''revori'' \<noteq> []" by (simp add: ustr_def)
  have no: "ustr ''tabchoice'' \<notin> set overwritten"
    by (simp add: overwritten_def ustr_def ord_def)
  have f: "ustr ''tabchoice'' @ ustr ''='' @ ustr ''revori'' \<in> set (str_split_on (ord CHR ''&'') default_query)"
    by (simp add: default_query_def str_eval)
  from query_rebuilt [OF build_query_default, THEN conjunct2] sn sv nv no f
  have "ustr ''tabchoice'' @ ustr ''='' @ ustr ''revori'' \<in> set (str_split_on (ord CHR ''&'') rebuilt_default_query)"
    by blast
  then have "ustr ''tabchoice=revori'' \<in> set (str_split_on (ord CHR ''&'') rebuilt_default_query)"
    by (simp add: ustr_def)
  with build_query_default show ?thesis by simp
qed



section \<open>Validation before the request\<close>

text \<open>
  When one of the four arguments fails the test the program makes of it,
  \<^verbatim>\<open>DATE_RE.match\<close> or \<^verbatim>\<open>TIME_RE.match\<close>, the operation ends in an error and leaves the
  world as it was: nothing was requested, printed or written. The URL is parsed before
  the arguments are looked at, so the error is one of the two validation errors when
  the URL parser accepted the base URL, and the parser's own error otherwise.
\<close>

lemma invalid_arguments_stop_before_request:
  assumes "\<not> matches DATE_RE start_date \<or> \<not> matches TIME_RE start_time \<or>
           \<not> matches DATE_RE end_date \<or> \<not> matches TIME_RE end_time"
  shows "\<exists>e. nmdb_data lib start_date start_time end_date end_time out_csv base_url w = (Inl e, w) \<and>
             ((\<exists>p. urlparse lib (base_of base_url) = Inr p) \<longrightarrow> e = date_error \<or> e = time_error)"
proof (cases "urlparse lib (base_of base_url)")
  case (Inl err)
  then show ?thesis
    by (simp add: nmdb_data_def build_ascii_url_def base_of_def)
next
  case (Inr p)
  from build_query_invalid[OF assms, of "query p"] Inr show ?thesis
    by (auto simp: nmdb_data_def build_ascii_url_def base_of_def)
qed

text \<open>
  C7. The test the program makes is not the shape \<^verbatim>\<open>YYYY-MM-DD\<close>: in a Python pattern
  \<^verbatim>\<open>$\<close> also matches before a newline that ends the string. The date
  \<^verbatim>\<open>2025-07-29\<close> followed by a newline has eleven characters and is not of the shape,
  yet it matches \<^verbatim>\<open>DATE_RE\<close>. No validation error is raised for it: the day is cut as
  \<^verbatim>\<open>29\<close> with the newline, and the request goes out with \<^verbatim>\<open>start_day=29%0A\<close>.
\<close>

theorem trailing_newline_passes_validation:
  "\<not> date_shape (ustr ''2025-07-29'' @ [10]) \<and>
   matches DATE_RE (ustr ''2025-07-29'' @ [10]) \<and>
   date_time_to_query_parts (ustr ''2025-07-29'' @ [10]) (ustr ''00:00'') =
     Inr (ustr ''29'' @ [10], ustr ''7'', ustr ''2025'', ustr ''0'', ustr ''0'') \<and>
   requested (snd (nmdb_data (stub_library (ustr ''# no data'')) (ustr ''2025-07-29'' @ [10])
       (ustr ''00:00'') (ustr ''2025-08-29'') (ustr ''23:59'') (ustr ''out.csv'')
       (Some (ustr ''http://x/q?a=1'')) \<lparr>files = Map.empty, requested = [], stdout = []\<rparr>)) =
     [ustr (''http://x/q?a=1&start_day=29%0A&start_month=7&start_year=2025&'' @
            ''start_hour=0&start_min=0&end_day=29&end_month=8&end_year=2025&'' @
            ''end_hour=23&end_min=59&output=ascii'')]"
proof -
  let ?lib = "stub_library (ustr ''# no data'')"
  let ?d = "ustr ''2025-07-29'' @ [10]"
  let ?url = "ustr (''http://x/q?a=1&start_day=29%0A&start_month=7&start_year=2025&'' @
                    ''start_hour=0&start_min=0&end_day=29&end_month=8&end_year=2025&'' @
                    ''end_hour=23&end_min=59&output=ascii'')"
  have ns: "\<not> date_shape ?d" by (simp add: date_shape_def ustr_def)
  have d1: "matches DATE_RE ?d" by (simp add: re_eval str_eval)
  have t1: "matches TIME_RE (ustr ''00:00'')" by (simp add: re_eval str_eval)
  have d2: "matches DATE_RE (ustr ''2025-08-29'')" by (simp add: re_eval str_eval)
  have t2: "matches TIME_RE (ustr ''23:59'')" by (simp add: re_eval str_eval)
  have p1: "date_time_to_query_parts ?d (ustr ''00:00'') =
              Inr (ustr ''29'' @ [10], ustr ''7'', ustr ''2025'', ustr ''0'', ustr ''0'')"
    by (simp add: query_parts_valid[OF d1 t1]) (simp add: ustr_def ord_def)
  have p2: "date_time_to_query_parts (ustr ''2025-08-29'') (ustr ''23:59'') =
              Inr (ustr ''29'', ustr ''8'', ustr ''2025'', ustr ''23'', ustr ''59'')"
    by (simp add: query_parts_valid[OF d2 t2]) (simp add: ustr_def ord_def)
  have q: "parse_qs (ustr ''a=1'') = [(ustr ''a'', [ustr ''1''])]"
    by (simp add: url_eval str_eval)
  have bq: "build_query (ustr ''a=1'') ?d (ustr ''00:00'') (ustr ''2025-08-29'') (ustr ''23:59'') =
            Inr (ustr (''a=1&start_day=29%0A&start_month=7&start_year=2025&'' @
                    ''start_hour=0&start_min=0&end_day=29&end_month=8&end_year=2025&'' @
                    ''end_hour=23&end_min=59&output=ascii''))"
    unfolding build_query_def p1 p2 q Let_def
    by (simp add: url_eval str_eval)
  have up: "urlparse ?lib (ustr ''http://x/q?a=1'') =
              Inr \<lparr>scheme = [], netloc = [], path = ustr ''http://x/q'', params = [],
                   query = ustr ''a=1'', fragment = []\<rparr>"
    by (simp add: stub_library_def str_eval)
  have h1: "build_ascii_url ?lib (ustr ''http://x/q?a=1'') ?d
              (ustr ''00:00'') (ustr ''2025-08-29'') (ustr ''23:59'') = Inr ?url"
    unfolding build_ascii_url_def
    by (simp add: up bq) (simp add: stub_library_def str_eval)
  have ne: "ustr ''http://x/q?a=1'' \<noteq> []" by (simp add: ustr_def)
  have "requested (snd (nmdb_data ?lib ?d (ustr ''00:00'') (ustr ''2025-08-29'') (ustr ''23:59'')
          (ustr ''out.csv'') (Some (ustr ''http://x/q?a=1''))
          \<lparr>files = Map.empty, requested = [], stdout = []\<rparr>)) = [?url]"
    unfolding nmdb_data_def
    by (simp add: ne h1 Let_def write_text_def split: sum.splits prod.splits option.splits)
  with ns d1 p1 show ?thesis by simp
qed

section \<open>The empty result\<close>







section \<open>Validation is syntactic\<close>






end
